theory Spec2Isabelle
  imports Main "HOL-Library.Sublist"
begin

section \<open>Python strings\<close>

text \<open>
  A Python \<open>str\<close> is modelled as a \<open>string\<close> whose characters are the code points
  below 256.  On that range \<open>str.isspace\<close>, \<open>str.strip\<close> and \<open>str.lower\<close> are
  exactly the functions below.
\<close>

definition isspace :: "char \<Rightarrow> bool" where
  "isspace c =
     (let n = (of_char c :: nat)
      in (9 \<le> n \<and> n \<le> 13) \<or> (28 \<le> n \<and> n \<le> 32) \<or> n = 133 \<or> n = 160)"

definition strip :: "string \<Rightarrow> string" where
  "strip s = rev (dropWhile isspace (rev (dropWhile isspace s)))"

definition lower_char :: "char \<Rightarrow> char" where
  "lower_char c =
     (let n = (of_char c :: nat)
      in if (65 \<le> n \<and> n \<le> 90) \<or> (192 \<le> n \<and> n \<le> 222 \<and> n \<noteq> 215)
         then char_of (n + 32) else c)"

definition lower :: "string \<Rightarrow> string" where
  "lower s = map lower_char s"

text \<open>\<open>sub in s\<close> for strings.\<close>

fun contains :: "string \<Rightarrow> string \<Rightarrow> bool" where
  "contains sub [] = (sub = [])"
| "contains sub (c # cs) = (prefix sub (c # cs) \<or> contains sub cs)"

text \<open>
  \<open>s.replace(old, new)\<close>: the occurrences of \<open>old\<close> are found from the left and do
  not overlap.  An empty \<open>old\<close> matches before every character and at the end.
\<close>

function replace :: "string \<Rightarrow> string \<Rightarrow> string \<Rightarrow> string" where
  "replace old new s =
     (if old = [] then new @ concat (map (\<lambda>c. c # new) s)
      else if s = [] then []
      else if prefix old s then new @ replace old new (drop (length old) s)
      else hd s # replace old new (tl s))"
  by pat_completeness auto
termination
  by (relation "measure (\<lambda>(old, new, s). length s)") (auto simp: neq_Nil_conv)

declare replace.simps [simp del]

section \<open>The solutions table\<close>

text \<open>
  One row of the table \<open>solutions\<close> (v2 schema).  \<open>row_id\<close> is the column \<open>id\<close>,
  \<open>verified_success\<close> is a nullable boolean, \<open>timestamp\<close> is the value of
  \<open>CURRENT_TIMESTAMP\<close> at the insert: UTC wall-clock time in whole seconds (SQLite
  stores the text \<open>YYYY-MM-DD HH:MM:SS\<close>, whose text order is the order of the
  seconds counted here).
\<close>

record row =
  row_id :: nat
  command :: string
  applescript :: string
  success :: bool
  verified_success :: "bool option"
  error_message :: "string option"
  feedback :: "string option"
  timestamp :: nat

text \<open>
  The database file at \<open>db_path\<close>.  \<open>solutions = None\<close> is a file without the table
  (as \<open>sqlite3.connect\<close> creates it); otherwise the rows are listed in rowid order,
  the order of a table scan.  \<open>sqlite_sequence\<close> is the AUTOINCREMENT counter.
\<close>

record database =
  solutions :: "row list option"
  sqlite_sequence :: nat

datatype error = OperationalError | EOFError

definition setup_database :: "database \<Rightarrow> database" where
  "setup_database d =
     (case solutions d of
        None \<Rightarrow> d\<lparr>solutions := Some []\<rparr>
      | Some rows \<Rightarrow> d)"

text \<open>
  \<open>ORDER BY timestamp DESC LIMIT 1\<close> over the rows that passed the \<open>WHERE\<close>
  clause, in scan order.  SQLite keeps the best row seen so far and replaces it
  only by a row with a strictly greater timestamp, so among rows of one second
  the first one scanned stays.
\<close>

definition sorter_step :: "row option \<Rightarrow> row \<Rightarrow> row option" where
  "sorter_step best r =
     (case best of
        None \<Rightarrow> Some r
      | Some b \<Rightarrow> if timestamp b < timestamp r then Some r else Some b)"

definition order_by_timestamp_desc_limit_1 :: "row list \<Rightarrow> row option" where
  "order_by_timestamp_desc_limit_1 rows = foldl sorter_step None rows"

text \<open>The \<open>WHERE\<close> clause of v2's query.\<close>

definition where_v2 :: "string \<Rightarrow> row \<Rightarrow> bool" where
  "where_v2 cmd r =
     (command r = cmd \<and> success r \<and>
      (verified_success r = Some True \<or> verified_success r = None))"

definition find_successful_solution :: "database \<Rightarrow> string \<Rightarrow> error + string option" where
  "find_successful_solution d cmd =
     (case solutions d of
        None \<Rightarrow> Inl OperationalError
      | Some rows \<Rightarrow>
          Inr (map_option applescript
                 (order_by_timestamp_desc_limit_1 (filter (where_v2 cmd) rows))))"

text \<open>The \<open>WHERE\<close> clause of v1's query, and v1's \<open>find_successful_solution\<close>.\<close>

definition where_v1 :: "string \<Rightarrow> row \<Rightarrow> bool" where
  "where_v1 cmd r = (command r = cmd \<and> success r)"

definition find_successful_solution_v1 :: "database \<Rightarrow> string \<Rightarrow> error + string option" where
  "find_successful_solution_v1 d cmd =
     (case solutions d of
        None \<Rightarrow> Inl OperationalError
      | Some rows \<Rightarrow>
          Inr (map_option applescript
                 (order_by_timestamp_desc_limit_1 (filter (where_v1 cmd) rows))))"

text \<open>
  \<open>save_solution\<close>: the \<open>INSERT\<close>.  AUTOINCREMENT gives the new row an id one above
  both the counter and every id in the table; \<open>now\<close> is the clock reading that
  \<open>CURRENT_TIMESTAMP\<close> takes.
\<close>

definition save_solution ::
  "nat \<Rightarrow> database \<Rightarrow> string \<Rightarrow> string \<Rightarrow> bool \<Rightarrow> bool option \<Rightarrow> string option \<Rightarrow> string option
     \<Rightarrow> error + database" where
  "save_solution now d cmd script ok verified err fb =
     (case solutions d of
        None \<Rightarrow> Inl OperationalError
      | Some rows \<Rightarrow>
          (let i = Suc (foldr max (map row_id rows) (sqlite_sequence d))
           in Inr (d\<lparr>solutions :=
                        Some (rows @ [\<lparr>row_id = i, command = cmd, applescript = script,
                                       success = ok, verified_success = verified,
                                       error_message = err, feedback = fb,
                                       timestamp = now\<rparr>]),
                      sqlite_sequence := i\<rparr>)))"

section \<open>The world outside the agent\<close>

text \<open>
  What \<open>client.chat.completions.create(...)\<close> followed by
  \<open>response.choices[0].message.content\<close> gives: an exception with its message, or
  the content, which the API may leave \<open>None\<close>.
\<close>

record message =
  role :: string
  content :: string

datatype api_outcome = ApiRaised string | ApiContent "string option"

text \<open>
  What \<open>subprocess.run(["osascript", "-e", script], capture_output=True, text=True)\<close>
  gives: an exception with its message, or the completed process with its return
  code and its stderr.
\<close>

datatype proc_outcome = Raised string | Completed int string

record env =
  chat_completions_create :: "string \<Rightarrow> message list \<Rightarrow> nat \<Rightarrow> api_outcome"
  subprocess_run :: "string list \<Rightarrow> proc_outcome"

text \<open>
  The state a command session reads and writes: the database file, the lines still
  to be read from standard input, everything written to standard output (one entry
  per \<open>print\<close> or prompt), and the scripts handed to \<open>osascript\<close> so far.
\<close>

record world =
  db :: database
  stdin :: "string list"
  stdout :: "string list"
  osascript_calls :: "string list"

record agent =
  db_path :: string
  enable_verification :: bool

definition print :: "string \<Rightarrow> world \<Rightarrow> world" where
  "print s w = w\<lparr>stdout := stdout w @ [s @ ''\<newline>'']\<rparr>"

text \<open>\<open>input(prompt)\<close>: writes the prompt, reads one line; \<open>None\<close> is \<open>EOFError\<close>.\<close>

definition input :: "string \<Rightarrow> world \<Rightarrow> string option \<times> world" where
  "input prompt w =
     (let w1 = w\<lparr>stdout := stdout w @ [prompt]\<rparr>
      in case stdin w1 of
           [] \<Rightarrow> (None, w1)
         | l # ls \<Rightarrow> (Some l, w1\<lparr>stdin := ls\<rparr>))"

section \<open>v2: ScriptLearningAgent\<close>

definition SYSTEM_PROMPT :: string where
  \<open>SYSTEM_PROMPT =
      ''You are an expert AppleScript developer. Generate ONLY the raw AppleScript code with no explanations or formatting. For Numbers app, use this exact structure:\<newline>'' @
      ''\<newline>'' @
      ''tell application "Numbers"\<newline>'' @
      ''    activate\<newline>'' @
      ''    delay 1\<newline>'' @
      ''    tell document 1\<newline>'' @
      ''        tell sheet 1\<newline>'' @
      ''            tell table 1\<newline>'' @
      ''                repeat with i from 1 to (get row count)\<newline>'' @
      ''                    set hasText to false\<newline>'' @
      ''                    -- Check cells in the row\<newline>'' @
      ''                    repeat with j from 1 to (get column count)\<newline>'' @
      ''                        set cellAddress to (get name of column j) & i\<newline>'' @
      ''                        set cellValue to value of cell cellAddress\<newline>'' @
      ''                        if cellValue is not missing value and cellValue is not "" then\<newline>'' @
      ''                            -- Check if the value is specifically text (not a number)\<newline>'' @
      ''                            if class of cellValue is text then\<newline>'' @
      ''                                set hasText to true\<newline>'' @
      ''                                exit repeat\<newline>'' @
      ''                            end if\<newline>'' @
      ''                        end if\<newline>'' @
      ''                    end repeat\<newline>'' @
      ''                    \<newline>'' @
      ''                    -- If row has text, color all cells in that row\<newline>'' @
      ''                    if hasText then\<newline>'' @
      ''                        repeat with j from 1 to (get column count)\<newline>'' @
      ''                            set cellAddress to (get name of column j) & i\<newline>'' @
      ''                            set background color of cell cellAddress to {0, 65535, 0}\<newline>'' @
      ''                        end repeat\<newline>'' @
      ''                    end if\<newline>'' @
      ''                end repeat\<newline>'' @
      ''            end tell\<newline>'' @
      ''        end tell\<newline>'' @
      ''    end tell\<newline>'' @
      ''end tell''\<close>

text \<open>
  \<open>generate_applescript\<close>.  The lookup of the previous solution is outside the
  \<open>try\<close>, so its error propagates; every exception inside the \<open>try\<close> (the API
  call failing, or \<open>.strip()\<close> on a \<open>None\<close> content) is printed and gives \<open>None\<close>.
\<close>

definition generate_applescript ::
  "env \<Rightarrow> world \<Rightarrow> string \<Rightarrow> (error + string option) \<times> world" where
  "generate_applescript e w cmd =
     (case find_successful_solution (db w) cmd of
        Inl err \<Rightarrow> (Inl err, w)
      | Inr previous_solution \<Rightarrow>
          (let messages =
                 [\<lparr>role = ''system'', content = SYSTEM_PROMPT\<rparr>] @
                 (case previous_solution of
                    None \<Rightarrow> []
                  | Some p \<Rightarrow>
                      if p = [] then []
                      else [\<lparr>role = ''system'',
                             content = ''Here's a previously successful solution for reference:''\<rparr>,
                            \<lparr>role = ''user'', content = p\<rparr>]) @
                 [\<lparr>role = ''user'', content = ''Generate AppleScript code to: '' @ cmd\<rparr>]
           in case chat_completions_create e ''gpt-3.5-turbo'' messages 400 of
                ApiRaised msg \<Rightarrow>
                  (Inr None, print (''Error generating AppleScript: '' @ msg) w)
              | ApiContent None \<Rightarrow>
                  (Inr None,
                   print (''Error generating AppleScript: '' @ [CHR 0x27] @
                          ''NoneType' object has no attribute 'strip'' @ [CHR 0x27]) w)
              | ApiContent (Some c) \<Rightarrow> (Inr (Some (strip c)), w)))"

definition NOT_AUTHORISED :: string where
  "NOT_AUTHORISED = ''Not authorised to send Apple events''"

definition PERMISSION_HELP :: "string list" where
  "PERMISSION_HELP =
     [''\<newline>Permission required! To allow this script to control applications, please:'',
      ''1. Open System Settings'',
      ''2. Go to Privacy & Security > Automation'',
      ''3. Find Python or Terminal in the list'',
      ''4. Enable the checkbox for the application you want to control'']"

definition execute_applescript ::
  "env \<Rightarrow> world \<Rightarrow> string \<Rightarrow> (bool \<times> string option) \<times> world" where
  "execute_applescript e w script =
     (let w1 = w\<lparr>osascript_calls := osascript_calls w @ [script]\<rparr>
      in case subprocess_run e [''osascript'', ''-e'', script] of
           Raised msg \<Rightarrow> ((False, Some msg), w1)
         | Completed returncode error_msg \<Rightarrow>
             if returncode = 0 then ((True, None), w1)
             else ((False, Some error_msg),
                   if contains NOT_AUTHORISED error_msg
                   then foldl (\<lambda>w' l. print l w') w1 PERMISSION_HELP
                   else w1))"

text \<open>Lines 177-182 of \<open>handle_command\<close>: the verification prompt and the feedback.\<close>

definition handle_command_verify ::
  "world \<Rightarrow> (error + bool option \<times> string option) \<times> world" where
  "handle_command_verify w =
     (let w1 = print ''\<newline>Script executed without errors.'' w
      in case input ''Did this achieve what you wanted? (yes/no): '' w1 of
           (None, w2) \<Rightarrow> (Inl EOFError, w2)
         | (Some line, w2) \<Rightarrow>
             (let verified = lower (strip line);
                  verified_success' = (verified \<in> set [''yes'', ''y''])
              in if \<not> verified_success'
                 then (case input ''What wasn't correct about the result? '' w2 of
                         (None, w3) \<Rightarrow> (Inl EOFError, w3)
                       | (Some fb, w3) \<Rightarrow> (Inr (Some verified_success', Some (strip fb)), w3))
                 else (Inr (Some verified_success', None), w2)))"

text \<open>Lines 186-192 of \<open>handle_command\<close>: the report after the row is saved.\<close>

definition handle_command_report ::
  "bool \<Rightarrow> bool option \<Rightarrow> string option \<Rightarrow> string option \<Rightarrow> world \<Rightarrow> world" where
  "handle_command_report ok verified_success' err fb w =
     (if ok
      then (let w1 = print ''\<newline>Script executed successfully!'' w
            in if verified_success' = Some False
               then print (''Feedback: '' @ (case fb of None \<Rightarrow> ''None'' | Some f \<Rightarrow> f))
                      (print ''But the result wasn't what you wanted.'' w1)
               else w1)
      else print (''\<newline>Execution failed: '' @ (case err of None \<Rightarrow> ''None'' | Some m \<Rightarrow> m)) w)"

definition handle_command ::
  "agent \<Rightarrow> env \<Rightarrow> nat \<Rightarrow> world \<Rightarrow> string \<Rightarrow> (error + bool) \<times> world" where
  "handle_command a e now w cmd =
     (case generate_applescript e w cmd of
        (Inl ex, w1) \<Rightarrow> (Inl ex, w1)
      | (Inr None, w1) \<Rightarrow> (Inr False, w1)
      | (Inr (Some script), w1) \<Rightarrow>
          if script = [] then (Inr False, w1)
          else
            (let w2 = print script (print ''\<newline>Generated AppleScript:\<newline>'' w1)
             in case input ''\<newline>Execute this script? (yes/no): '' w2 of
                  (None, w3) \<Rightarrow> (Inl EOFError, w3)
                | (Some line, w3) \<Rightarrow>
                    (let approval = lower (strip line)
                     in if approval \<notin> set [''yes'', ''y''] then (Inr False, w3)
                        else
                          (case execute_applescript e w3 script of
                             ((ok, err), w4) \<Rightarrow>
                               (case (if ok \<and> enable_verification a
                                      then handle_command_verify w4
                                      else (Inr (None, None), w4)) of
                                  (Inl ex, w5) \<Rightarrow> (Inl ex, w5)
                                | (Inr (verified_success', fb), w5) \<Rightarrow>
                                    (case save_solution now (db w5) cmd script ok
                                            verified_success' err fb of
                                       Inl ex \<Rightarrow> (Inl ex, w5)
                                     | Inr d \<Rightarrow>
                                         (Inr ok,
                                          handle_command_report ok verified_success' err fb
                                            (w5\<lparr>db := d\<rparr>))))))))"

section \<open>v1: the agent without a store\<close>

text \<open>
  Lines 112-116 of v1's \<open>generate_applescript\<close> (ai_script_agent_whisper.py): what
  is done to the content of the response.  \<open>FENCE\<close> is the marker of a markdown code
  block, three backquotes.
\<close>

definition FENCE :: string where
  "FENCE = [CHR 0x60, CHR 0x60, CHR 0x60]"

definition clean_response_v1 :: "string \<Rightarrow> string" where
  "clean_response_v1 c =
     strip (replace FENCE [] (replace (FENCE @ ''applescript'') [] (strip c)))"

definition PROMPT_V1 :: "string \<Rightarrow> string" where
  "PROMPT_V1 user_command =
      ''You are an assistant that translates natural language commands into AppleScript code. '' @
      ''Only provide the AppleScript code and nothing else. '' @
      ''Do NOT wrap the code in markdown code blocks (```) or any other formatting. '' @
      ''Focus on common macOS automation tasks like:\<newline>'' @
      ''- Opening applications\<newline>'' @
      ''- Controlling system settings\<newline>'' @
      ''- Managing windows\<newline>'' @
      ''- Basic file operations\<newline>'' @
      ''- System notifications\<newline>'' @
      ''- Controlling applications like Numbers, Safari, Finder, etc.\<newline>\<newline>'' @
      ''Important:\<newline>'' @
      ''1. Generate only the AppleScript code, no explanations\<newline>'' @
      ''2. Use proper AppleScript syntax and structure\<newline>'' @
      ''3. Include necessary delays and activation commands\<newline>'' @
      ''4. Handle application-specific requirements (like Numbers' table structure)\<newline>\<newline>'' @
      ''Command: '' @ user_command @ ''\<newline>\<newline>AppleScript Code:''"

text \<open>
  v1's \<open>generate_applescript\<close> (ai_script_agent_whisper.py): every exception inside the
  \<open>try\<close> is printed and gives \<open>None\<close>.
\<close>

definition generate_applescript_v1 :: "env \<Rightarrow> world \<Rightarrow> string \<Rightarrow> string option \<times> world" where
  "generate_applescript_v1 e w user_command =
     (case chat_completions_create e ''gpt-3.5-turbo''
             [\<lparr>role = ''system'',
               content = ''You are an expert AppleScript developer. Generate clean, working AppleScript code for any macOS automation task. Handle application-specific requirements and proper object hierarchies automatically.''\<rparr>,
              \<lparr>role = ''user'', content = PROMPT_V1 user_command\<rparr>]
             200 of
        ApiRaised msg \<Rightarrow> (None, print (''Error generating AppleScript: '' @ msg) w)
      | ApiContent None \<Rightarrow>
          (None,
           print (''Error generating AppleScript: '' @ [CHR 0x27] @
                  ''NoneType' object has no attribute 'strip'' @ [CHR 0x27]) w)
      | ApiContent (Some c) \<Rightarrow> (Some (clean_response_v1 c), w))"

section \<open>Appending several attempts\<close>

text \<open>
  The arguments of one call of \<open>save_solution\<close> for a fixed command, with the clock
  reading at the call first.  \<open>save_solutions\<close> makes the calls one after the other,
  \<open>save_then_find\<close> queries the command afterwards.  \<open>qualifying\<close> says that an
  attempt succeeded and was not rejected, and \<open>attempt_of\<close> reads an attempt back from
  its row.
\<close>

type_synonym attempt = "nat \<times> string \<times> bool \<times> bool option \<times> string option \<times> string option"

fun save_solutions :: "database \<Rightarrow> string \<Rightarrow> attempt list \<Rightarrow> error + database" where
  "save_solutions d cmd [] = Inr d"
| "save_solutions d cmd ((now, script, ok, verified, err, fb) # xs) =
     (case save_solution now d cmd script ok verified err fb of
        Inl ex \<Rightarrow> Inl ex
      | Inr d' \<Rightarrow> save_solutions d' cmd xs)"

definition save_then_find :: "database \<Rightarrow> string \<Rightarrow> attempt list \<Rightarrow> error + string option" where
  "save_then_find d cmd xs =
     (case save_solutions d cmd xs of
        Inl ex \<Rightarrow> Inl ex
      | Inr d' \<Rightarrow> find_successful_solution d' cmd)"

definition qualifying :: "attempt \<Rightarrow> bool" where
  "qualifying x =
     (case x of (now, script, ok, verified, err, fb) \<Rightarrow>
        ok \<and> (verified = Some True \<or> verified = None))"

definition attempt_of :: "row \<Rightarrow> attempt" where
  "attempt_of r =
     (timestamp r, applescript r, success r, verified_success r, error_message r, feedback r)"

section \<open>Example stores\<close>

text \<open>
  Three attempts for one command: an old unverified success, a newer verified
  success, and a still newer success that the user rejected.
\<close>

definition example_rows :: "row list" where
  "example_rows =
     [\<lparr>row_id = 1, command = ''open Safari'', applescript = ''script A1'', success = True,
       verified_success = None, error_message = None, feedback = None, timestamp = 100\<rparr>,
      \<lparr>row_id = 2, command = ''open Safari'', applescript = ''script A2'', success = True,
       verified_success = Some True, error_message = None, feedback = None, timestamp = 200\<rparr>,
      \<lparr>row_id = 3, command = ''open Safari'', applescript = ''script A3'', success = True,
       verified_success = Some False, error_message = None,
       feedback = Some ''wrong window'', timestamp = 300\<rparr>]"

definition example_db :: database where
  "example_db = \<lparr>solutions = Some example_rows, sqlite_sequence = 3\<rparr>"

definition empty_db :: database where
  "empty_db = \<lparr>solutions = Some [], sqlite_sequence = 0\<rparr>"

section \<open>Intermediate states and example inputs\<close>

text \<open>
  The world of \<open>handle_command\<close> after the script has been printed and the line
  \<open>line\<close> has been read at the approval prompt, \<open>rest\<close> being the lines left.
\<close>

definition after_approval :: "world \<Rightarrow> string \<Rightarrow> string list \<Rightarrow> world" where
  "after_approval w script rest =
     w\<lparr>stdout := stdout w @ [''\<newline>Generated AppleScript:\<newline>'' @ ''\<newline>'',
                              script @ ''\<newline>'',
                              ''\<newline>Execute this script? (yes/no): ''],
       stdin := rest\<rparr>"

text \<open>
  A collaborator pair with fixed answers, a world with an empty table, and an agent.
\<close>

definition example_script :: string where
  \<open>example_script = ''tell application "Safari" to activate''\<close>

definition example_env :: "api_outcome \<Rightarrow> proc_outcome \<Rightarrow> env" where
  "example_env reply run =
     \<lparr>chat_completions_create = (\<lambda>model messages max_tokens. reply),
      subprocess_run = (\<lambda>argv. run)\<rparr>"

definition example_world :: "string list \<Rightarrow> world" where
  "example_world lines = \<lparr>db = empty_db, stdin = lines, stdout = [], osascript_calls = []\<rparr>"

definition example_agent :: "bool \<Rightarrow> agent" where
  "example_agent v = \<lparr>db_path = ''script_solutions.db'', enable_verification = v\<rparr>"

definition example_stderr :: string where
  "example_stderr = ''execution error: Not authorised to send Apple events to Safari. (-1743)''"

text \<open>
  A response wrapped in a markdown code block, and the number of backquotes a string
  starts with.
\<close>

definition example_fenced :: string where
  "example_fenced = FENCE @ ''applescript\<newline>'' @ example_script @ ''\<newline>'' @ FENCE"

definition lead :: "string \<Rightarrow> nat" where
  "lead s = length (takeWhile (\<lambda>c. c = CHR 0x60) s)"

section \<open>Retrieval\<close>

lemma sorter_step_simps:
  "sorter_step None r = Some r"
  "sorter_step (Some b) r = (if timestamp b < timestamp r then Some r else Some b)"
  by (simp_all add: sorter_step_def)

lemma order_by_foldl_Some:
  "foldl sorter_step (Some b0) rows = Some x
   \<Longrightarrow> (x = b0 \<or> x \<in> set rows) \<and> timestamp b0 \<le> timestamp x
       \<and> (\<forall>r \<in> set rows. timestamp r \<le> timestamp x)"
proof (induction rows arbitrary: b0)
  case Nil
  then show ?case by simp
next
  case (Cons r rows)
  show ?case
  proof (cases "timestamp b0 < timestamp r")
    case True
    with Cons.prems have "foldl sorter_step (Some r) rows = Some x"
      by (simp add: sorter_step_simps)
    from Cons.IH [OF this] True show ?thesis by auto
  next
    case False
    with Cons.prems have "foldl sorter_step (Some b0) rows = Some x"
      by (simp add: sorter_step_simps)
    from Cons.IH [OF this] False show ?thesis by auto
  qed
qed

lemma order_by_foldl_Some_ex:
  "\<exists>x. foldl sorter_step (Some b0) rows = Some x"
  by (induction rows arbitrary: b0) (auto simp: sorter_step_simps)

lemma order_by_None_iff:
  "order_by_timestamp_desc_limit_1 rows = None \<longleftrightarrow> rows = []"
proof (cases rows)
  case Nil
  then show ?thesis by (simp add: order_by_timestamp_desc_limit_1_def)
next
  case (Cons r rs)
  with order_by_foldl_Some_ex [of r rs] show ?thesis
    by (auto simp: order_by_timestamp_desc_limit_1_def sorter_step_simps)
qed

lemma order_by_Some:
  assumes "order_by_timestamp_desc_limit_1 rows = Some x"
  shows "x \<in> set rows \<and> (\<forall>r \<in> set rows. timestamp r \<le> timestamp x)"
proof (cases rows)
  case Nil
  with assms show ?thesis by (simp add: order_by_timestamp_desc_limit_1_def)
next
  case (Cons r rs)
  with assms have "foldl sorter_step (Some r) rs = Some x"
    by (simp add: order_by_timestamp_desc_limit_1_def sorter_step_simps)
  from order_by_foldl_Some [OF this] Cons show ?thesis by auto
qed

text \<open>
  C1.  On a database that has the table, \<open>find_successful_solution\<close> does not fail.
  When it returns a script, that script is the \<open>applescript\<close> of a row of the table
  whose \<open>command\<close> is the queried string itself, whose \<open>success\<close> is true and whose
  \<open>verified_success\<close> is true or null (so not false), and no row with these three
  properties has a greater \<open>timestamp\<close>.  When it returns \<open>None\<close>, no row of the table
  has the three properties.
\<close>

theorem find_successful_solution_selects_latest_qualifying:
  assumes "solutions d = Some rows"
  shows "case find_successful_solution d cmd of
           Inl ex \<Rightarrow> False
         | Inr None \<Rightarrow>
             \<not> (\<exists>r \<in> set rows. command r = cmd \<and> success r \<and>
                    (verified_success r = Some True \<or> verified_success r = None))
         | Inr (Some s) \<Rightarrow>
             (\<exists>r \<in> set rows.
                applescript r = s \<and> command r = cmd \<and> success r \<and>
                (verified_success r = Some True \<or> verified_success r = None) \<and>
                verified_success r \<noteq> Some False \<and>
                (\<forall>r' \<in> set rows.
                   command r' = cmd \<and> success r' \<and>
                   (verified_success r' = Some True \<or> verified_success r' = None)
                   \<longrightarrow> timestamp r' \<le> timestamp r))"
proof (cases "order_by_timestamp_desc_limit_1 (filter (where_v2 cmd) rows)")
  case None
  then have "filter (where_v2 cmd) rows = []"
    by (simp add: order_by_None_iff)
  then have "\<forall>r \<in> set rows. \<not> where_v2 cmd r"
    by (simp add: filter_empty_conv)
  with None assms show ?thesis
    by (simp add: find_successful_solution_def where_v2_def)
next
  case (Some x)
  from order_by_Some [OF Some]
  have x: "x \<in> set rows" "where_v2 cmd x"
    and mx: "\<forall>r \<in> set rows. where_v2 cmd r \<longrightarrow> timestamp r \<le> timestamp x"
    by auto
  from x(2) have q: "command x = cmd" "success x"
      "verified_success x = Some True \<or> verified_success x = None"
    by (simp_all add: where_v2_def)
  from q(3) have nf: "verified_success x \<noteq> Some False" by auto
  from mx have "\<forall>r' \<in> set rows.
                   command r' = cmd \<and> success r' \<and>
                   (verified_success r' = Some True \<or> verified_success r' = None)
                   \<longrightarrow> timestamp r' \<le> timestamp x"
    by (simp add: where_v2_def)
  with x(1) q nf have "\<exists>r \<in> set rows.
                applescript r = applescript x \<and> command r = cmd \<and> success r \<and>
                (verified_success r = Some True \<or> verified_success r = None) \<and>
                verified_success r \<noteq> Some False \<and>
                (\<forall>r' \<in> set rows.
                   command r' = cmd \<and> success r' \<and>
                   (verified_success r' = Some True \<or> verified_success r' = None)
                   \<longrightarrow> timestamp r' \<le> timestamp r)"
    by blast
  with Some assms show ?thesis
    by (simp add: find_successful_solution_def)
qed

theorem find_successful_solution_selects_latest_qualifying_witness:
  "solutions example_db = Some example_rows \<and>
   find_successful_solution example_db ''open Safari'' = Inr (Some ''script A2'') \<and>
   find_successful_solution example_db ''Open Safari'' = Inr None \<and>
   (case find_successful_solution example_db ''open Safari'' of
           Inl ex \<Rightarrow> False
         | Inr None \<Rightarrow>
             \<not> (\<exists>r \<in> set example_rows. command r = ''open Safari'' \<and> success r \<and>
                    (verified_success r = Some True \<or> verified_success r = None))
         | Inr (Some s) \<Rightarrow>
             (\<exists>r \<in> set example_rows.
                applescript r = s \<and> command r = ''open Safari'' \<and> success r \<and>
                (verified_success r = Some True \<or> verified_success r = None) \<and>
                verified_success r \<noteq> Some False \<and>
                (\<forall>r' \<in> set example_rows.
                   command r' = ''open Safari'' \<and> success r' \<and>
                   (verified_success r' = Some True \<or> verified_success r' = None)
                   \<longrightarrow> timestamp r' \<le> timestamp r)))"
proof -
  have h: "solutions example_db = Some example_rows"
    by (simp add: example_db_def)
  have a: "find_successful_solution example_db ''open Safari'' = Inr (Some ''script A2'')"
    by (simp add: find_successful_solution_def example_db_def example_rows_def where_v2_def
        order_by_timestamp_desc_limit_1_def sorter_step_simps)
  have b: "find_successful_solution example_db ''Open Safari'' = Inr None"
    by (simp add: find_successful_solution_def example_db_def example_rows_def where_v2_def
        order_by_timestamp_desc_limit_1_def sorter_step_simps)
  note c = find_successful_solution_selects_latest_qualifying [OF h, of "''open Safari''"]
  from h a b c show ?thesis by (intro conjI)
qed

section \<open>Insertion order and recency\<close>

lemma foldr_max_ge:
  "(b::nat) \<le> foldr max xs b" "x \<in> set xs \<Longrightarrow> x \<le> foldr max xs b"
  by (induction xs) (auto simp: max_def)

lemma save_solution_row:
  assumes "solutions d = Some rows"
  shows "\<exists>d' r. save_solution now d cmd script ok v err fb = Inr d'
           \<and> solutions d' = Some (rows @ [r])
           \<and> attempt_of r = (now, script, ok, v, err, fb) \<and> command r = cmd
           \<and> (\<forall>r0 \<in> set rows. row_id r0 < row_id r)"
proof -
  have "\<forall>r0 \<in> set rows. row_id r0 < Suc (foldr max (map row_id rows) (sqlite_sequence d))"
    using foldr_max_ge(2) [of _ "map row_id rows" "sqlite_sequence d"]
    by (auto simp: less_Suc_eq_le)
  with assms show ?thesis
    by (simp add: save_solution_def Let_def attempt_of_def)
qed

lemma save_solutions_rows:
  assumes "solutions d = Some rows"
  shows "\<exists>d' news. save_solutions d cmd xs = Inr d'
           \<and> solutions d' = Some (rows @ news)
           \<and> map attempt_of news = xs
           \<and> (\<forall>r \<in> set news. command r = cmd)
           \<and> sorted_wrt (<) (map row_id news)
           \<and> (\<forall>r0 \<in> set rows. \<forall>r \<in> set news. row_id r0 < row_id r)"
  using assms
proof (induction xs arbitrary: d rows)
  case Nil
  then show ?case by simp
next
  case (Cons x xs)
  obtain now script ok v err fb where x: "x = (now, script, ok, v, err, fb)"
    by (cases x)
  from save_solution_row [OF Cons.prems, of now cmd script ok v err fb]
  obtain d1 r1 where s: "save_solution now d cmd script ok v err fb = Inr d1"
    and r1: "solutions d1 = Some (rows @ [r1])" "attempt_of r1 = x" "command r1 = cmd"
      "\<forall>r0 \<in> set rows. row_id r0 < row_id r1"
    using x by blast
  from Cons.IH [OF r1(1)] obtain d' news where
    n: "save_solutions d1 cmd xs = Inr d'" "solutions d' = Some ((rows @ [r1]) @ news)"
      "map attempt_of news = xs" "\<forall>r \<in> set news. command r = cmd"
      "sorted_wrt (<) (map row_id news)"
      "\<forall>r0 \<in> set (rows @ [r1]). \<forall>r \<in> set news. row_id r0 < row_id r"
    by blast
  have "save_solutions d cmd (x # xs) = Inr d'" using x s n(1) by simp
  moreover have "solutions d' = Some (rows @ (r1 # news))" using n(2) by simp
  moreover have "map attempt_of (r1 # news) = x # xs" using r1(2) n(3) by simp
  moreover have "\<forall>r \<in> set (r1 # news). command r = cmd" using r1(3) n(4) by simp
  moreover have "sorted_wrt (<) (map row_id (r1 # news))" using n(5) n(6) by simp
  moreover have "\<forall>r0 \<in> set rows. \<forall>r \<in> set (r1 # news). row_id r0 < row_id r"
    using r1(4) n(6) by simp
  ultimately show ?case
    by (intro exI [of _ d'] exI [of _ "r1 # news"] conjI)
qed

lemma foldl_sorter_increasing:
  assumes "B \<noteq> []" and "sorted_wrt (<) (map timestamp B)"
    and "\<forall>b. best = Some b \<longrightarrow> (\<forall>r \<in> set B. timestamp b < timestamp r)"
  shows "foldl sorter_step best B = Some (last B)"
  using assms
proof (induction B arbitrary: best)
  case Nil
  then show ?case by simp
next
  case (Cons r B)
  from Cons.prems(3) have st: "sorter_step best r = Some r"
    by (cases best) (auto simp: sorter_step_simps)
  show ?case
  proof (cases "B = []")
    case True
    with st show ?thesis by simp
  next
    case False
    from Cons.prems(2) have "sorted_wrt (<) (map timestamp B)"
      "\<forall>b. Some r = Some b \<longrightarrow> (\<forall>r' \<in> set B. timestamp b < timestamp r')"
      by auto
    from Cons.IH [OF False this] st False show ?thesis by simp
  qed
qed

lemma order_by_append:
  "order_by_timestamp_desc_limit_1 (A @ B) =
     foldl sorter_step (order_by_timestamp_desc_limit_1 A) B"
  by (simp add: order_by_timestamp_desc_limit_1_def)

lemma sorted_wrt_conj:
  "sorted_wrt (\<lambda>x y. P x y \<and> Q x y) xs = (sorted_wrt P xs \<and> sorted_wrt Q xs)"
  by (induction xs) auto

lemma sorted_wrt_filter_map:
  "sorted_wrt (<) (map f xs) \<Longrightarrow> sorted_wrt (<) (map f (filter P xs))"
  by (induction xs) auto

text \<open>
  C2, as amended.  Let the attempts \<open>xs\<close> be appended for one command to a database that
  has the table, at clock readings that increase strictly from one append to the next
  and are later than every timestamp already stored.  Then the appended rows are in the
  table in the order of the appends, their ids and their timestamps increase together,
  and the query afterwards returns the script of the last appended attempt that
  succeeded and was not rejected; if no appended attempt is such, it returns what it
  returned before.
\<close>

theorem latest_appended_is_retrieved:
  assumes t: "solutions d = Some rows"
    and inc: "sorted_wrt (<) (map fst xs)"
    and later: "\<forall>r \<in> set rows. \<forall>x \<in> set xs. timestamp r < fst x"
  shows "\<exists>d' news. save_solutions d cmd xs = Inr d'
           \<and> solutions d' = Some (rows @ news)
           \<and> map attempt_of news = xs
           \<and> sorted_wrt (\<lambda>r r'. row_id r < row_id r' \<and> timestamp r < timestamp r') news
           \<and> save_then_find d cmd xs =
               (if filter qualifying xs = [] then find_successful_solution d cmd
                else Inr (Some (fst (snd (last (filter qualifying xs))))))"
proof -
  from save_solutions_rows [OF t, of cmd xs] obtain d' news where
    n: "save_solutions d cmd xs = Inr d'" "solutions d' = Some (rows @ news)"
      "map attempt_of news = xs" "\<forall>r \<in> set news. command r = cmd"
      "sorted_wrt (<) (map row_id news)"
    by blast
  have ts: "map timestamp news = map fst xs"
    using n(3) by (auto simp: attempt_of_def)
  with inc have st: "sorted_wrt (<) (map timestamp news)" by simp
  with n(5) have so: "sorted_wrt (\<lambda>r r'. row_id r < row_id r' \<and> timestamp r < timestamp r') news"
    by (simp add: sorted_wrt_conj sorted_wrt_map)
  let ?B = "filter (where_v2 cmd) news"
  have q: "where_v2 cmd r = qualifying (attempt_of r)" if "r \<in> set news" for r
    using that n(4) by (simp add: where_v2_def qualifying_def attempt_of_def)
  have fq: "filter qualifying xs = map attempt_of ?B"
  proof -
    have "filter qualifying xs = filter qualifying (map attempt_of news)" using n(3) by simp
    also have "\<dots> = map attempt_of (filter (qualifying \<circ> attempt_of) news)"
      by (simp add: filter_map)
    also have "filter (qualifying \<circ> attempt_of) news = ?B"
      by (rule filter_cong [OF refl]) (simp add: q)
    finally show ?thesis .
  qed
  have f': "find_successful_solution d' cmd =
      Inr (map_option applescript
             (foldl sorter_step
                (order_by_timestamp_desc_limit_1 (filter (where_v2 cmd) rows)) ?B))"
    using n(2) by (simp add: find_successful_solution_def order_by_append)
  have "find_successful_solution d' cmd =
               (if filter qualifying xs = [] then find_successful_solution d cmd
                else Inr (Some (fst (snd (last (filter qualifying xs))))))"
  proof (cases "?B = []")
    case True
    with fq f' t show ?thesis by (simp add: find_successful_solution_def)
  next
    case False
    have s1: "sorted_wrt (<) (map timestamp ?B)"
      using st by (rule sorted_wrt_filter_map)
    have s2: "\<forall>b. order_by_timestamp_desc_limit_1 (filter (where_v2 cmd) rows) = Some b
               \<longrightarrow> (\<forall>r \<in> set ?B. timestamp b < timestamp r)"
    proof (intro allI impI ballI)
      fix b r
      assume "order_by_timestamp_desc_limit_1 (filter (where_v2 cmd) rows) = Some b"
        and r: "r \<in> set ?B"
      from order_by_Some [OF this(1)] have "b \<in> set rows" by simp
      moreover from r have "attempt_of r \<in> set xs" using n(3) by auto
      ultimately have "timestamp b < fst (attempt_of r)" using later by blast
      then show "timestamp b < timestamp r" by (simp add: attempt_of_def)
    qed
    from foldl_sorter_increasing [OF False s1 s2] f'
    have "find_successful_solution d' cmd = Inr (Some (applescript (last ?B)))" by simp
    moreover from False fq have "filter qualifying xs \<noteq> []" by simp
    moreover from False fq have "last (filter qualifying xs) = attempt_of (last ?B)"
      by (simp add: last_map)
    ultimately show ?thesis by (simp add: attempt_of_def)
  qed
  with n so show ?thesis by (simp add: save_then_find_def)
qed

theorem latest_appended_is_retrieved_witness:
  "solutions example_db = Some example_rows
   \<and> sorted_wrt (<) (map fst [(301, ''script B'', True, None, None, None),
                                (302::nat, ''script C'', True, Some False, None, Some ''no tab'')])
   \<and> list_all (\<lambda>r. list_all (\<lambda>x. timestamp r < fst x)
                       [(301, ''script B'', True, None, None, None),
                        (302::nat, ''script C'', True, Some False, None, Some ''no tab'')])
         example_rows
   \<and> find_successful_solution example_db ''open Safari'' = Inr (Some ''script A2'')
   \<and> save_then_find example_db ''open Safari''
        [(301, ''script B'', True, None, None, None),
         (302, ''script C'', True, Some False, None, Some ''no tab'')]
       = Inr (Some ''script B'')"
proof -
  let ?xs = "[(301, ''script B'', True, None, None, None),
              (302::nat, ''script C'', True, Some False, None, Some ''no tab'')]"
  have t: "solutions example_db = Some example_rows" by (simp add: example_db_def)
  have inc: "sorted_wrt (<) (map fst ?xs)" by simp
  have l: "list_all (\<lambda>r. list_all (\<lambda>x. timestamp r < fst x) ?xs) example_rows"
    by (simp add: example_rows_def)
  then have later: "\<forall>r \<in> set example_rows. \<forall>x \<in> set ?xs. timestamp r < fst x"
    by (simp add: list_all_iff)
  have before: "find_successful_solution example_db ''open Safari'' = Inr (Some ''script A2'')"
    by (simp add: find_successful_solution_def example_db_def example_rows_def where_v2_def
        order_by_timestamp_desc_limit_1_def sorter_step_simps)
  from latest_appended_is_retrieved [OF t inc later, of "''open Safari''"]
  have "save_then_find example_db ''open Safari'' ?xs = Inr (Some ''script B'')"
    by (auto simp: qualifying_def)
  with t inc l before show ?thesis by (intro conjI)
qed

text \<open>
  Without the condition on the clock the statement fails: \<open>CURRENT_TIMESTAMP\<close> counts
  whole seconds, and of two successful attempts saved within one second the query
  returns the one saved first.
\<close>

theorem same_second_appends_counterexample:
  "save_solutions empty_db ''open Safari''
      [(100, ''script A'', True, None, None, None), (100, ''script B'', True, None, None, None)]
     = Inr \<lparr>solutions =
              Some [\<lparr>row_id = 1, command = ''open Safari'', applescript = ''script A'',
                      success = True, verified_success = None, error_message = None,
                      feedback = None, timestamp = 100\<rparr>,
                    \<lparr>row_id = 2, command = ''open Safari'', applescript = ''script B'',
                      success = True, verified_success = None, error_message = None,
                      feedback = None, timestamp = 100\<rparr>],
            sqlite_sequence = 2\<rparr>
   \<and> fst (snd (last (filter qualifying
        [(100, ''script A'', True, None, None, None), (100, ''script B'', True, None, None, None)])))
       = ''script B''
   \<and> save_then_find empty_db ''open Safari''
        [(100, ''script A'', True, None, None, None), (100, ''script B'', True, None, None, None)]
       = Inr (Some ''script A'')"
  by (simp add: save_then_find_def save_solution_def empty_db_def Let_def qualifying_def
      find_successful_solution_def where_v2_def order_by_timestamp_desc_limit_1_def
      sorter_step_simps)

section \<open>The two generations of the query\<close>

text \<open>
  C10.  On a table in which no row has \<open>verified_success\<close> false, v1's query (which
  looks only at \<open>command\<close> and \<open>success\<close>) and v2's query return the same result for
  every command.
\<close>

theorem find_successful_solution_v1_v2_agree:
  assumes "solutions d = Some rows"
    and "\<forall>r \<in> set rows. verified_success r \<noteq> Some False"
  shows "find_successful_solution_v1 d cmd = find_successful_solution d cmd"
proof -
  have "filter (where_v1 cmd) rows = filter (where_v2 cmd) rows"
  proof (rule filter_cong [OF refl])
    fix r assume "r \<in> set rows"
    with assms(2) have "verified_success r \<noteq> Some False" by blast
    then have "verified_success r = Some True \<or> verified_success r = None"
      by (cases "verified_success r") auto
    then show "where_v1 cmd r = where_v2 cmd r"
      by (auto simp: where_v1_def where_v2_def)
  qed
  with assms(1) show ?thesis
    by (simp add: find_successful_solution_v1_def find_successful_solution_def)
qed

theorem find_successful_solution_v1_v2_agree_witness:
  "solutions (example_db\<lparr>solutions := Some (take 2 example_rows)\<rparr>) = Some (take 2 example_rows) \<and>
   list_all (\<lambda>r. verified_success r \<noteq> Some False) (take 2 example_rows) \<and>
   find_successful_solution_v1 (example_db\<lparr>solutions := Some (take 2 example_rows)\<rparr>) ''open Safari''
     = find_successful_solution (example_db\<lparr>solutions := Some (take 2 example_rows)\<rparr>) ''open Safari'' \<and>
   find_successful_solution (example_db\<lparr>solutions := Some (take 2 example_rows)\<rparr>) ''open Safari''
     = Inr (Some ''script A2'')"
proof -
  have h1: "solutions (example_db\<lparr>solutions := Some (take 2 example_rows)\<rparr>)
              = Some (take 2 example_rows)"
    by simp
  have h2: "\<forall>r \<in> set (take 2 example_rows). verified_success r \<noteq> Some False"
    by (simp add: example_rows_def)
  have v: "find_successful_solution (example_db\<lparr>solutions := Some (take 2 example_rows)\<rparr>)
             ''open Safari'' = Inr (Some ''script A2'')"
    by (simp add: find_successful_solution_def example_rows_def where_v2_def
        order_by_timestamp_desc_limit_1_def sorter_step_simps)
  from h2 have h3: "list_all (\<lambda>r. verified_success r \<noteq> Some False) (take 2 example_rows)"
    by (simp add: list_all_iff)
  note c = find_successful_solution_v1_v2_agree [OF h1 h2, of "''open Safari''"]
  from h1 h3 c v show ?thesis by (intro conjI)
qed

section \<open>Initialisation\<close>

text \<open>
  C8.  \<open>setup_database\<close> is idempotent, and on a database that already has the table it
  changes nothing: every row is still there, unchanged, and so is the counter.
\<close>

theorem setup_database_idempotent:
  "setup_database (setup_database d) = setup_database d \<and>
   (solutions d = Some rows \<longrightarrow> setup_database d = d)"
  by (cases "solutions d") (simp_all add: setup_database_def)

theorem setup_database_idempotent_witness:
  "setup_database (setup_database example_db) = setup_database example_db \<and>
   solutions example_db = Some example_rows \<and> setup_database example_db = example_db"
proof -
  have h: "solutions example_db = Some example_rows"
    by (simp add: example_db_def)
  from setup_database_idempotent [of example_db example_rows] h show ?thesis
    by blast
qed

section \<open>A command session\<close>

lemma print_frame [simp]:
  "db (print s w) = db w" "stdin (print s w) = stdin w"
  "osascript_calls (print s w) = osascript_calls w"
  "stdout (print s w) = stdout w @ [s @ ''\<newline>'']"
  by (simp_all add: print_def)

lemma input_Nil: "stdin w = [] \<Longrightarrow> input p w = (None, w\<lparr>stdout := stdout w @ [p]\<rparr>)"
  by (simp add: input_def)

lemma input_Cons:
  "stdin w = l # ls \<Longrightarrow> input p w = (Some l, w\<lparr>stdout := stdout w @ [p], stdin := ls\<rparr>)"
  by (simp add: input_def)

lemma input_frame:
  "input p w = (r, w') \<Longrightarrow>
     db w' = db w \<and> osascript_calls w' = osascript_calls w \<and> stdout w' = stdout w @ [p]"
  by (cases "stdin w") (auto simp: input_def)

lemma generate_applescript_frame:
  "generate_applescript e w cmd = (r, w') \<Longrightarrow>
     db w' = db w \<and> stdin w' = stdin w \<and> osascript_calls w' = osascript_calls w"
  by (auto simp: generate_applescript_def Let_def
           split: sum.splits api_outcome.splits option.splits)

lemma generate_applescript_Some:
  "generate_applescript e w cmd = (Inr (Some s), w') \<Longrightarrow> w' = w"
  by (auto simp: generate_applescript_def Let_def
           split: sum.splits api_outcome.splits option.splits)

lemma foldl_print_frame [simp]:
  "db (foldl (\<lambda>w' l. print l w') w ls) = db w"
  "stdin (foldl (\<lambda>w' l. print l w') w ls) = stdin w"
  "osascript_calls (foldl (\<lambda>w' l. print l w') w ls) = osascript_calls w"
  "stdout (foldl (\<lambda>w' l. print l w') w ls) = stdout w @ map (\<lambda>l. l @ ''\<newline>'') ls"
  by (induction ls arbitrary: w) simp_all

lemma execute_applescript_frame:
  "execute_applescript e w script = (r, w') \<Longrightarrow>
     db w' = db w \<and> stdin w' = stdin w \<and> osascript_calls w' = osascript_calls w @ [script]"
  by (auto simp: execute_applescript_def Let_def split: proc_outcome.splits if_splits)

lemma execute_applescript_result:
  "execute_applescript e w script = ((ok, err), w') \<Longrightarrow> (err \<noteq> None) = (\<not> ok)"
  by (auto simp: execute_applescript_def Let_def split: proc_outcome.splits if_splits)

lemma handle_command_verify_frame:
  "handle_command_verify w = (r, w') \<Longrightarrow>
     db w' = db w \<and> osascript_calls w' = osascript_calls w"
  by (auto simp: handle_command_verify_def Let_def dest!: input_frame
      split: prod.splits option.splits if_splits)

lemma handle_command_report_frame [simp]:
  "db (handle_command_report ok v err fb w) = db w"
  "osascript_calls (handle_command_report ok v err fb w) = osascript_calls w"
  by (simp_all add: handle_command_report_def Let_def)

lemma handle_command_run:
  assumes g: "generate_applescript e w cmd = (Inr (Some script), w1)" and ne: "script \<noteq> []"
    and i: "stdin w = line # rest" and y: "lower (strip line) \<in> {''yes'', ''y''}"
  shows "handle_command a e now w cmd =
     (case execute_applescript e (after_approval w script rest) script of
        ((ok, err), w4) \<Rightarrow>
          (case (if ok \<and> enable_verification a
                 then handle_command_verify w4
                 else (Inr (None, None), w4)) of
             (Inl ex, w5) \<Rightarrow> (Inl ex, w5)
           | (Inr (v, fb), w5) \<Rightarrow>
               (case save_solution now (db w5) cmd script ok v err fb of
                  Inl ex \<Rightarrow> (Inl ex, w5)
                | Inr d \<Rightarrow>
                    (Inr ok, handle_command_report ok v err fb (w5\<lparr>db := d\<rparr>)))))"
proof -
  from g have w1: "w1 = w" by (rule generate_applescript_Some)
  have inp: "input ''\<newline>Execute this script? (yes/no): ''
          (print script (print ''\<newline>Generated AppleScript:\<newline>'' w))
        = (Some line, after_approval w script rest)"
    using i by (simp add: input_def after_approval_def print_def Let_def)
  show ?thesis
    using g ne y unfolding handle_command_def w1
    by (auto simp: inp Let_def)
qed

lemma handle_command_changed:
  assumes h: "handle_command a e now w cmd = (res, w')" and c: "db w' \<noteq> db w"
  shows "\<exists>script line rest. generate_applescript e w cmd = (Inr (Some script), w) \<and> script \<noteq> []
           \<and> stdin w = line # rest \<and> lower (strip line) \<in> {''yes'', ''y''}"
proof -
  obtain g w1 where g: "generate_applescript e w cmd = (g, w1)" by (cases "generate_applescript e w cmd")
  from generate_applescript_frame [OF g] have f1: "db w1 = db w" "stdin w1 = stdin w" by auto
  show ?thesis
  proof (cases g)
    case (Inl ex)
    with h g c f1 show ?thesis by (simp add: handle_command_def)
  next
    case (Inr o1)
    show ?thesis
    proof (cases o1)
      case None
      with Inr h g c f1 show ?thesis by (simp add: handle_command_def)
    next
      case (Some script)
      with Inr g have g': "generate_applescript e w cmd = (Inr (Some script), w1)" by simp
      from generate_applescript_Some [OF g'] have w1: "w1 = w" .
      show ?thesis
      proof (cases "script = []")
        case True
        with g' h c f1 show ?thesis by (simp add: handle_command_def)
      next
        case False
        show ?thesis
        proof (cases "stdin w")
          case Nil
          with g' h c False w1 show ?thesis
            by (auto simp: handle_command_def input_def Let_def)
        next
          case (Cons line rest)
          show ?thesis
          proof (cases "lower (strip line) \<in> {''yes'', ''y''}")
            case True
            with g' False Cons w1 show ?thesis by auto
          next
            case False
            with g' h c \<open>script \<noteq> []\<close> Cons w1 show ?thesis
              by (auto simp: handle_command_def input_def Let_def)
          qed
        qed
      qed
    qed
  qed
qed

lemma handle_command_verify_yes:
  assumes "stdin w = answer # rest" and "lower (strip answer) \<in> {''yes'', ''y''}"
  shows "\<exists>w'. handle_command_verify w = (Inr (Some True, None), w') \<and> stdin w' = rest"
  using assms by (auto simp: handle_command_verify_def input_def Let_def)

lemma handle_command_verify_no:
  assumes "stdin w = answer # f # rest" and "lower (strip answer) \<notin> {''yes'', ''y''}"
  shows "\<exists>w'. handle_command_verify w = (Inr (Some False, Some (strip f)), w') \<and> stdin w' = rest
          \<and> stdout w' = stdout w @ [''\<newline>Script executed without errors.'' @ ''\<newline>'',
                ''Did this achieve what you wanted? (yes/no): '',
                ''What wasn't correct about the result? '']"
  using assms by (auto simp: handle_command_verify_def input_def Let_def)

lemma handle_command_verify_eof:
  assumes "stdin w = [answer]" and "lower (strip answer) \<notin> {''yes'', ''y''}"
  shows "\<exists>w'. handle_command_verify w = (Inl EOFError, w')"
  using assms by (auto simp: handle_command_verify_def input_def Let_def)

lemma handle_command_verify_cases:
  assumes "handle_command_verify w = (Inr (v, fb), w')"
  shows "(\<exists>answer rest. stdin w = answer # rest \<and> lower (strip answer) \<in> {''yes'', ''y''}
            \<and> v = Some True \<and> fb = None) \<or>
         (\<exists>answer f rest. stdin w = answer # f # rest \<and> lower (strip answer) \<notin> {''yes'', ''y''}
            \<and> v = Some False \<and> fb = Some (strip f))"
proof (cases "stdin w")
  case Nil
  with assms show ?thesis by (auto simp: handle_command_verify_def input_def Let_def)
next
  case (Cons answer rest)
  show ?thesis
  proof (cases "lower (strip answer) \<in> {''yes'', ''y''}")
    case True
    from handle_command_verify_yes [OF Cons True] assms Cons True show ?thesis by auto
  next
    case False
    show ?thesis
    proof (cases rest)
      case Nil
      with Cons have "stdin w = [answer]" by simp
      from handle_command_verify_eof [OF this False] assms show ?thesis by auto
    next
      case (Cons f rest')
      with \<open>stdin w = answer # rest\<close> have "stdin w = answer # f # rest'" by simp
      from handle_command_verify_no [OF this False] assms this False show ?thesis by auto
    qed
  qed
qed

lemma save_solution_Some:
  assumes "solutions d = Some rows"
  shows "\<exists>i d'. save_solution now d cmd script ok v err fb = Inr d' \<and>
           solutions d' = Some (rows @ [\<lparr>row_id = i, command = cmd, applescript = script,
                                       success = ok, verified_success = v,
                                       error_message = err, feedback = fb,
                                       timestamp = now\<rparr>])"
  using assms by (simp add: save_solution_def Let_def)

lemma save_solution_None:
  assumes "solutions d = None"
  shows "save_solution now d cmd script ok v err fb = Inl OperationalError"
  using assms by (simp add: save_solution_def)

lemma generate_applescript_table:
  assumes "generate_applescript e w cmd = (Inr g, w')"
  shows "\<exists>rows. solutions (db w) = Some rows"
  using assms by (cases "solutions (db w)")
    (auto simp: generate_applescript_def find_successful_solution_def)

lemma handle_command_recorded:
  assumes h: "handle_command a e now w cmd = (res, w')" and c: "db w' \<noteq> db w"
  shows "\<exists>script line rest ok err v fb w4 w5 rows i.
     generate_applescript e w cmd = (Inr (Some script), w) \<and> script \<noteq> []
     \<and> stdin w = line # rest \<and> lower (strip line) \<in> {''yes'', ''y''}
     \<and> execute_applescript e (after_approval w script rest) script = ((ok, err), w4)
     \<and> (if ok \<and> enable_verification a then handle_command_verify w4
         else (Inr (None, None), w4)) = (Inr (v, fb), w5)
     \<and> solutions (db w) = Some rows
     \<and> solutions (db w') =
         Some (rows @ [\<lparr>row_id = i, command = cmd, applescript = script,
                         success = ok, verified_success = v,
                         error_message = err, feedback = fb, timestamp = now\<rparr>])
     \<and> res = Inr ok"
proof -
  from handle_command_changed [OF h c] obtain script line rest where
    g: "generate_applescript e w cmd = (Inr (Some script), w)" and ne: "script \<noteq> []"
    and i: "stdin w = line # rest" and y: "lower (strip line) \<in> {''yes'', ''y''}"
    by blast
  from generate_applescript_table [OF g] obtain rows where rows: "solutions (db w) = Some rows"
    by blast
  obtain ok err w4 where
    x: "execute_applescript e (after_approval w script rest) script = ((ok, err), w4)"
    by (metis surj_pair)
  from execute_applescript_frame [OF x] have d4: "db w4 = db w"
    by (simp add: after_approval_def)
  obtain r5 w5 where
    v: "(if ok \<and> enable_verification a then handle_command_verify w4
         else (Inr (None, None), w4)) = (r5, w5)"
    by (metis surj_pair)
  have d5: "db w5 = db w"
  proof (cases "ok \<and> enable_verification a")
    case True
    with v have "handle_command_verify w4 = (r5, w5)" by simp
    from handle_command_verify_frame [OF this] d4 show ?thesis by simp
  next
    case False
    with v d4 show ?thesis by auto
  qed
  note run = handle_command_run [OF g ne i y, of a now]
  show ?thesis
  proof (cases r5)
    case (Inl ex)
    with run x v have "handle_command a e now w cmd = (Inl ex, w5)" by simp
    with h c d5 show ?thesis by simp
  next
    case (Inr p)
    obtain vv fb where p: "p = (vv, fb)" by (cases p)
    from rows d5 have "solutions (db w5) = Some rows" by simp
    from save_solution_Some [OF this, of now cmd script ok vv err fb]
    obtain i' d' where s: "save_solution now (db w5) cmd script ok vv err fb = Inr d'"
      and s': "solutions d' = Some (rows @ [\<lparr>row_id = i', command = cmd, applescript = script,
                                       success = ok, verified_success = vv,
                                       error_message = err, feedback = fb,
                                       timestamp = now\<rparr>])"
      by blast
    from run x v Inr p s have
      "handle_command a e now w cmd = (Inr ok, handle_command_report ok vv err fb (w5\<lparr>db := d'\<rparr>))"
      by simp
    with h have "res = Inr ok" "db w' = d'" by auto
    with g ne i y x v Inr p rows s' show ?thesis by blast
  qed
qed

lemma handle_command_recorded_row:
  assumes h: "handle_command a e now w cmd = (res, w')" and c: "db w' \<noteq> db w"
  shows "\<exists>rows r. solutions (db w) = Some rows \<and> solutions (db w') = Some (rows @ [r])
     \<and> res = Inr (success r)
     \<and> ((error_message r \<noteq> None) = (\<not> success r))
     \<and> (\<not> (success r \<and> enable_verification a) \<and> verified_success r = None \<and> feedback r = None
         \<or> success r \<and> enable_verification a \<and>
           ((\<exists>line answer rest. stdin w = line # answer # rest
                \<and> lower (strip answer) \<in> {''yes'', ''y''}
                \<and> verified_success r = Some True \<and> feedback r = None)
            \<or> (\<exists>line answer f rest. stdin w = line # answer # f # rest
                \<and> lower (strip answer) \<notin> {''yes'', ''y''}
                \<and> verified_success r = Some False \<and> feedback r = Some (strip f))))"
proof -
  from handle_command_recorded [OF h c] obtain script line rest ok err v fb w4 w5 rows i where
    i: "stdin w = line # rest"
    and x: "execute_applescript e (after_approval w script rest) script = ((ok, err), w4)"
    and vf: "(if ok \<and> enable_verification a then handle_command_verify w4
         else (Inr (None, None), w4)) = (Inr (v, fb), w5)"
    and rows: "solutions (db w) = Some rows"
    and rows': "solutions (db w') =
         Some (rows @ [\<lparr>row_id = i, command = cmd, applescript = script,
                         success = ok, verified_success = v,
                         error_message = err, feedback = fb, timestamp = now\<rparr>])"
    and res: "res = Inr ok"
    by blast
  let ?r = "\<lparr>row_id = i, command = cmd, applescript = script,
                         success = ok, verified_success = v,
                         error_message = err, feedback = fb, timestamp = now\<rparr>"
  from execute_applescript_frame [OF x] have s4: "stdin w4 = rest"
    by (simp add: after_approval_def)
  from execute_applescript_result [OF x] have e: "(err \<noteq> None) = (\<not> ok)" .
  have "\<not> (ok \<and> enable_verification a) \<and> v = None \<and> fb = None
         \<or> ok \<and> enable_verification a \<and>
           ((\<exists>line answer rest. stdin w = line # answer # rest
                \<and> lower (strip answer) \<in> {''yes'', ''y''}
                \<and> v = Some True \<and> fb = None)
            \<or> (\<exists>line answer f rest. stdin w = line # answer # f # rest
                \<and> lower (strip answer) \<notin> {''yes'', ''y''}
                \<and> v = Some False \<and> fb = Some (strip f)))"
  proof (cases "ok \<and> enable_verification a")
    case True
    with vf have "handle_command_verify w4 = (Inr (v, fb), w5)" by simp
    from handle_command_verify_cases [OF this] s4 i True show ?thesis by auto
  next
    case False
    with vf show ?thesis by auto
  qed
  with rows rows' res e show ?thesis
    by (intro exI [of _ rows] exI [of _ ?r]) simp
qed

section \<open>Example sessions\<close>

lemma example_script_facts:
  "example_script \<noteq> []" "strip example_script = example_script"
  by (simp_all add: strip_def isspace_def example_script_def Let_def)

lemma example_answers:
  "lower (strip '' Yes '') = ''yes''" "lower (strip ''y'') = ''y''"
  "lower (strip ''no'') = ''no''" "lower (strip []) = []"
  "strip '' wrong window '' = ''wrong window''"
  by code_simp+

lemma example_generate_raised:
  "generate_applescript (example_env (ApiRaised ''timeout'') run) (example_world ls) ''open Safari''
   = (Inr None, print ''Error generating AppleScript: timeout'' (example_world ls))"
  by (simp add: generate_applescript_def find_successful_solution_def example_env_def
      example_world_def empty_db_def order_by_timestamp_desc_limit_1_def Let_def)

lemma example_generate_script:
  "generate_applescript (example_env (ApiContent (Some example_script)) run)
        (example_world ls) ''open Safari''
   = (Inr (Some example_script), example_world ls)"
  by (simp add: generate_applescript_def find_successful_solution_def example_env_def
      example_world_def empty_db_def order_by_timestamp_desc_limit_1_def Let_def
      example_script_facts)

lemmas example_eval =
  example_world_def execute_applescript_def example_env_def after_approval_def Let_def
  save_solution_def empty_db_def handle_command_report_def print_def example_agent_def
  handle_command_verify_def input_def example_answers

lemma example_session_declined:
  "handle_command (example_agent False)
     (example_env (ApiContent (Some example_script)) (Completed 0 []))
     7 (example_world [''no'']) ''open Safari'' =
   (Inr False,
    \<lparr>db = empty_db, stdin = [],
     stdout = [''\<newline>Generated AppleScript:\<newline>\<newline>'', example_script @ ''\<newline>'',
               ''\<newline>Execute this script? (yes/no): ''],
     osascript_calls = []\<rparr>)"
  by (simp only: handle_command_def example_generate_script)
     (simp add: example_script_facts example_eval)

lemma example_session_unverified:
  "handle_command (example_agent False)
     (example_env (ApiContent (Some example_script)) (Completed 0 []))
     7 (example_world ['' Yes '']) ''open Safari'' =
   (Inr True,
    \<lparr>db = \<lparr>solutions = Some [\<lparr>row_id = 1, command = ''open Safari'', applescript = example_script,
                success = True, verified_success = None, error_message = None, feedback = None,
                timestamp = 7\<rparr>], sqlite_sequence = 1\<rparr>,
     stdin = [],
     stdout = [''\<newline>Generated AppleScript:\<newline>\<newline>'', example_script @ ''\<newline>'',
               ''\<newline>Execute this script? (yes/no): '',
               ''\<newline>Script executed successfully!\<newline>''],
     osascript_calls = [example_script]\<rparr>)"
  by (simp only: handle_command_def example_generate_script)
     (simp add: example_script_facts example_eval)

lemma example_session_rejected:
  "handle_command (example_agent True)
     (example_env (ApiContent (Some example_script)) (Completed 0 []))
     7 (example_world [''y'', ''no'', '' wrong window '']) ''open Safari'' =
   (Inr True,
    \<lparr>db = \<lparr>solutions = Some [\<lparr>row_id = 1, command = ''open Safari'', applescript = example_script,
                success = True, verified_success = Some False, error_message = None,
                feedback = Some ''wrong window'', timestamp = 7\<rparr>], sqlite_sequence = 1\<rparr>,
     stdin = [],
     stdout = [''\<newline>Generated AppleScript:\<newline>\<newline>'', example_script @ ''\<newline>'',
               ''\<newline>Execute this script? (yes/no): '',
               ''\<newline>Script executed without errors.\<newline>'',
               ''Did this achieve what you wanted? (yes/no): '',
               ''What wasn't correct about the result? '',
               ''\<newline>Script executed successfully!\<newline>'',
               ''But the result wasn't what you wanted.\<newline>'',
               ''Feedback: wrong window\<newline>''],
     osascript_calls = [example_script]\<rparr>)"
  by (simp only: handle_command_def example_generate_script)
     (simp add: example_script_facts example_eval)

lemma example_session_failed:
  "handle_command (example_agent True)
     (example_env (ApiContent (Some example_script)) (Completed 1 ''syntax error''))
     7 (example_world [''y'']) ''open Safari'' =
   (Inr False,
    \<lparr>db = \<lparr>solutions = Some [\<lparr>row_id = 1, command = ''open Safari'', applescript = example_script,
                success = False, verified_success = None, error_message = Some ''syntax error'',
                feedback = None, timestamp = 7\<rparr>], sqlite_sequence = 1\<rparr>,
     stdin = [],
     stdout = [''\<newline>Generated AppleScript:\<newline>\<newline>'', example_script @ ''\<newline>'',
               ''\<newline>Execute this script? (yes/no): '',
               ''\<newline>Execution failed: syntax error\<newline>''],
     osascript_calls = [example_script]\<rparr>)"
  by (simp only: handle_command_def example_generate_script)
     (simp add: example_script_facts example_eval NOT_AUTHORISED_def)

lemma example_stderr_contains:
  "contains ''Not authorised to send Apple events'' example_stderr"
  by (simp add: example_stderr_def)

section \<open>What a session records\<close>

text \<open>
  C4.  When \<open>generate_applescript\<close> returns \<open>None\<close> or an empty script, and when it
  returns a script but the line read at the approval prompt is not \<open>yes\<close> or \<open>y\<close> after
  \<open>strip\<close> and \<open>lower\<close>, \<open>handle_command\<close> returns \<open>False\<close>, leaves the database as it was
  and hands nothing to \<open>osascript\<close>.  Whenever \<open>handle_command\<close> changes the database, it
  has handed a script to \<open>osascript\<close>.
\<close>

theorem handle_command_aborts_without_record:
  "(fst (generate_applescript e w cmd) = Inr None \<or>
    fst (generate_applescript e w cmd) = Inr (Some [])
      \<longrightarrow> fst (handle_command a e now w cmd) = Inr False
          \<and> db (snd (handle_command a e now w cmd)) = db w
          \<and> osascript_calls (snd (handle_command a e now w cmd)) = osascript_calls w)
   \<and> (fst (generate_applescript e w cmd) = Inr (Some script) \<and>
       stdin w = line # rest \<and> lower (strip line) \<notin> {''yes'', ''y''}
      \<longrightarrow> fst (handle_command a e now w cmd) = Inr False
          \<and> db (snd (handle_command a e now w cmd)) = db w
          \<and> osascript_calls (snd (handle_command a e now w cmd)) = osascript_calls w)
   \<and> (db (snd (handle_command a e now w cmd)) \<noteq> db w
      \<longrightarrow> (\<exists>s. osascript_calls (snd (handle_command a e now w cmd)) = osascript_calls w @ [s]))"
proof (intro conjI impI)
  obtain g w1 where g: "generate_applescript e w cmd = (g, w1)"
    by (cases "generate_applescript e w cmd")
  note f = generate_applescript_frame [OF g]
  {
    assume "fst (generate_applescript e w cmd) = Inr None \<or>
            fst (generate_applescript e w cmd) = Inr (Some [])"
    with g have "g = Inr None \<or> g = Inr (Some [])" by simp
    with g have "handle_command a e now w cmd = (Inr False, w1)"
      by (auto simp: handle_command_def)
    with f show "fst (handle_command a e now w cmd) = Inr False"
      "db (snd (handle_command a e now w cmd)) = db w"
      "osascript_calls (snd (handle_command a e now w cmd)) = osascript_calls w"
      by simp_all
  }
  {
    assume d: "fst (generate_applescript e w cmd) = Inr (Some script) \<and>
       stdin w = line # rest \<and> lower (strip line) \<notin> {''yes'', ''y''}"
    with g have g': "generate_applescript e w cmd = (Inr (Some script), w1)" by simp
    from generate_applescript_Some [OF g'] have w1: "w1 = w" .
    have "fst (handle_command a e now w cmd) = Inr False
          \<and> db (snd (handle_command a e now w cmd)) = db w
          \<and> osascript_calls (snd (handle_command a e now w cmd)) = osascript_calls w"
    proof (cases "script = []")
      case True
      with g' w1 show ?thesis by (simp add: handle_command_def)
    next
      case False
      with g' w1 d show ?thesis
        by (auto simp: handle_command_def input_def Let_def)
    qed
    then show "fst (handle_command a e now w cmd) = Inr False"
      "db (snd (handle_command a e now w cmd)) = db w"
      "osascript_calls (snd (handle_command a e now w cmd)) = osascript_calls w"
      by simp_all
  }
  {
    assume c: "db (snd (handle_command a e now w cmd)) \<noteq> db w"
    obtain res w' where h: "handle_command a e now w cmd = (res, w')"
      by (cases "handle_command a e now w cmd")
    with c have c': "db w' \<noteq> db w" by simp
    from handle_command_recorded [OF h c'] obtain script' line' rest' ok err v fb w4 w5 where
      gs: "generate_applescript e w cmd = (Inr (Some script'), w)" and ne: "script' \<noteq> []"
      and i: "stdin w = line' # rest'" and y: "lower (strip line') \<in> {''yes'', ''y''}"
      and x: "execute_applescript e (after_approval w script' rest') script' = ((ok, err), w4)"
      and vf: "(if ok \<and> enable_verification a then handle_command_verify w4
         else (Inr (None, None), w4)) = (Inr (v, fb), w5)"
      by blast
    from execute_applescript_frame [OF x]
    have c4: "osascript_calls w4 = osascript_calls w @ [script']"
      by (simp add: after_approval_def)
    have c5: "osascript_calls w5 = osascript_calls w4"
    proof (cases "ok \<and> enable_verification a")
      case True
      with vf have "handle_command_verify w4 = (Inr (v, fb), w5)" by simp
      from handle_command_verify_frame [OF this] show ?thesis by simp
    next
      case False
      with vf show ?thesis by auto
    qed
    from handle_command_run [OF gs ne i y, of a now] x vf h
    have "osascript_calls w' = osascript_calls w5"
      by (auto split: sum.splits)
    with c4 c5 h
    show "\<exists>s. osascript_calls (snd (handle_command a e now w cmd)) = osascript_calls w @ [s]"
      by simp
  }
qed

theorem handle_command_aborts_without_record_witness:
  "fst (generate_applescript (example_env (ApiRaised ''timeout'') (Completed 0 []))
          (example_world [''yes'']) ''open Safari'') = Inr None
   \<and> fst (handle_command (example_agent False) (example_env (ApiRaised ''timeout'') (Completed 0 []))
            7 (example_world [''yes'']) ''open Safari'') = Inr False
   \<and> db (snd (handle_command (example_agent False)
                (example_env (ApiRaised ''timeout'') (Completed 0 []))
                7 (example_world [''yes'']) ''open Safari'')) = empty_db
   \<and> lower (strip ''no'') = ''no''
   \<and> fst (handle_command (example_agent False)
            (example_env (ApiContent (Some example_script)) (Completed 0 []))
            7 (example_world [''no'']) ''open Safari'') = Inr False
   \<and> db (snd (handle_command (example_agent False)
                (example_env (ApiContent (Some example_script)) (Completed 0 []))
                7 (example_world [''no'']) ''open Safari'')) = empty_db
   \<and> osascript_calls (snd (handle_command (example_agent False)
                (example_env (ApiContent (Some example_script)) (Completed 0 []))
                7 (example_world [''no'']) ''open Safari'')) = []
   \<and> db (snd (handle_command (example_agent False)
                (example_env (ApiContent (Some example_script)) (Completed 0 []))
                7 (example_world ['' Yes '']) ''open Safari'')) \<noteq> empty_db
   \<and> osascript_calls (snd (handle_command (example_agent False)
                (example_env (ApiContent (Some example_script)) (Completed 0 []))
                7 (example_world ['' Yes '']) ''open Safari'')) = [example_script]"
proof -
  have g: "fst (generate_applescript (example_env (ApiRaised ''timeout'') (Completed 0 []))
          (example_world [''yes'']) ''open Safari'') = Inr None"
    by (simp add: example_generate_raised)
  note a = handle_command_aborts_without_record
    [where e = "example_env (ApiRaised ''timeout'') (Completed 0 [])"
       and w = "example_world [''yes'']" and cmd = "''open Safari''"
       and a = "example_agent False" and now = 7]
  have g2: "fst (generate_applescript (example_env (ApiContent (Some example_script)) (Completed 0 []))
          (example_world [''no'']) ''open Safari'') = Inr (Some example_script)"
    by (simp add: example_generate_script)
  have i: "stdin (example_world [''no'']) = ''no'' # []" by (simp add: example_world_def)
  have n: "lower (strip ''no'') \<notin> {''yes'', ''y''}" by (simp add: example_answers)
  note b = handle_command_aborts_without_record
    [where e = "example_env (ApiContent (Some example_script)) (Completed 0 [])"
       and w = "example_world [''no'']" and cmd = "''open Safari''"
       and a = "example_agent False" and now = 7
       and script = example_script and line = "''no''" and rest = "[]"]
  have c: "db (snd (handle_command (example_agent False)
                (example_env (ApiContent (Some example_script)) (Completed 0 []))
                7 (example_world ['' Yes '']) ''open Safari'')) \<noteq> empty_db"
    by (simp add: example_session_unverified empty_db_def)
  have d: "osascript_calls (snd (handle_command (example_agent False)
                (example_env (ApiContent (Some example_script)) (Completed 0 []))
                7 (example_world ['' Yes '']) ''open Safari'')) = [example_script]"
    by (simp add: example_session_unverified)
  have w0: "db (example_world ls) = empty_db" "osascript_calls (example_world ls) = []" for ls
    by (simp_all add: example_world_def)
  from a g b g2 i n c d show ?thesis
    by (simp add: w0 example_answers)
qed

text \<open>
  C5.  Whenever \<open>handle_command\<close> writes to the database it appends one row \<open>r\<close>.  If the
  execution failed or verification is disabled, \<open>verified_success r\<close> is null.  It is
  true only if a second line was read (the answer to the verification prompt) and that
  answer is \<open>yes\<close> or \<open>y\<close> after \<open>strip\<close> and \<open>lower\<close>.  It is false only if the answer is
  anything else and a third line was read, whose stripped text is stored as
  \<open>feedback r\<close>.
\<close>

theorem recorded_verified_field:
  assumes "handle_command a e now w cmd = (res, w')" and "db w' \<noteq> db w"
  shows "\<exists>rows r. solutions (db w) = Some rows \<and> solutions (db w') = Some (rows @ [r])
     \<and> (\<not> success r \<or> \<not> enable_verification a \<longrightarrow> verified_success r = None)
     \<and> (verified_success r = Some True \<longrightarrow>
          (\<exists>line answer rest. stdin w = line # answer # rest
             \<and> lower (strip answer) \<in> {''yes'', ''y''}))
     \<and> (verified_success r = Some False \<longrightarrow>
          (\<exists>line answer f rest. stdin w = line # answer # f # rest
             \<and> lower (strip answer) \<notin> {''yes'', ''y''} \<and> feedback r = Some (strip f)))"
proof -
  from handle_command_recorded_row [OF assms] obtain rows r where
    "solutions (db w) = Some rows" "solutions (db w') = Some (rows @ [r])"
    and k: "\<not> (success r \<and> enable_verification a) \<and> verified_success r = None \<and> feedback r = None
         \<or> success r \<and> enable_verification a \<and>
           ((\<exists>line answer rest. stdin w = line # answer # rest
                \<and> lower (strip answer) \<in> {''yes'', ''y''}
                \<and> verified_success r = Some True \<and> feedback r = None)
            \<or> (\<exists>line answer f rest. stdin w = line # answer # f # rest
                \<and> lower (strip answer) \<notin> {''yes'', ''y''}
                \<and> verified_success r = Some False \<and> feedback r = Some (strip f)))"
    by blast
  moreover from k have "\<not> success r \<or> \<not> enable_verification a \<longrightarrow> verified_success r = None"
    by auto
  moreover from k have "verified_success r = Some True \<longrightarrow>
          (\<exists>line answer rest. stdin w = line # answer # rest
             \<and> lower (strip answer) \<in> {''yes'', ''y''})"
    by auto
  moreover from k have "verified_success r = Some False \<longrightarrow>
          (\<exists>line answer f rest. stdin w = line # answer # f # rest
             \<and> lower (strip answer) \<notin> {''yes'', ''y''} \<and> feedback r = Some (strip f))"
    by auto
  ultimately show ?thesis by blast
qed

theorem recorded_verified_field_witness:
  "handle_command (example_agent True)
     (example_env (ApiContent (Some example_script)) (Completed 0 []))
     7 (example_world [''y'', ''no'', '' wrong window '']) ''open Safari'' =
   (Inr True,
    \<lparr>db = \<lparr>solutions = Some [\<lparr>row_id = 1, command = ''open Safari'', applescript = example_script,
                success = True, verified_success = Some False, error_message = None,
                feedback = Some ''wrong window'', timestamp = 7\<rparr>], sqlite_sequence = 1\<rparr>,
     stdin = [],
     stdout = [''\<newline>Generated AppleScript:\<newline>\<newline>'', example_script @ ''\<newline>'',
               ''\<newline>Execute this script? (yes/no): '',
               ''\<newline>Script executed without errors.\<newline>'',
               ''Did this achieve what you wanted? (yes/no): '',
               ''What wasn't correct about the result? '',
               ''\<newline>Script executed successfully!\<newline>'',
               ''But the result wasn't what you wanted.\<newline>'',
               ''Feedback: wrong window\<newline>''],
     osascript_calls = [example_script]\<rparr>)
   \<and> (\<exists>rows r. solutions (db (example_world [''y'', ''no'', '' wrong window ''])) = Some rows
        \<and> solutions \<lparr>solutions = Some [\<lparr>row_id = 1, command = ''open Safari'',
                applescript = example_script,
                success = True, verified_success = Some False, error_message = None,
                feedback = Some ''wrong window'', timestamp = 7\<rparr>], sqlite_sequence = 1\<rparr>
            = Some (rows @ [r])
        \<and> verified_success r = Some False \<and> feedback r = Some (strip '' wrong window ''))"
proof -
  note h = example_session_rejected
  have c: "db \<lparr>db = \<lparr>solutions = Some [\<lparr>row_id = 1, command = ''open Safari'',
                applescript = example_script,
                success = True, verified_success = Some False, error_message = None,
                feedback = Some ''wrong window'', timestamp = 7\<rparr>], sqlite_sequence = 1\<rparr>,
     stdin = [],
     stdout = [''\<newline>Generated AppleScript:\<newline>\<newline>'', example_script @ ''\<newline>'',
               ''\<newline>Execute this script? (yes/no): '',
               ''\<newline>Script executed without errors.\<newline>'',
               ''Did this achieve what you wanted? (yes/no): '',
               ''What wasn't correct about the result? '',
               ''\<newline>Script executed successfully!\<newline>'',
               ''But the result wasn't what you wanted.\<newline>'',
               ''Feedback: wrong window\<newline>''],
     osascript_calls = [example_script]\<rparr> \<noteq> db (example_world [''y'', ''no'', '' wrong window ''])"
    by (simp add: example_world_def empty_db_def)
  from recorded_verified_field [OF h c] obtain rows r where
    r: "solutions (db (example_world [''y'', ''no'', '' wrong window ''])) = Some rows"
      "Some [\<lparr>row_id = 1, command = ''open Safari'',
                applescript = example_script,
                success = True, verified_success = Some False, error_message = None,
                feedback = Some ''wrong window'', timestamp = 7\<rparr>] = Some (rows @ [r])"
    and f: "verified_success r = Some False \<longrightarrow>
          (\<exists>line answer f rest. stdin (example_world [''y'', ''no'', '' wrong window ''])
               = line # answer # f # rest
             \<and> lower (strip answer) \<notin> {''yes'', ''y''} \<and> feedback r = Some (strip f))"
    by auto
  from r have "rows = []" by (simp add: example_world_def empty_db_def)
  with r(2) have vr: "verified_success r = Some False" by auto
  with f have "feedback r = Some (strip '' wrong window '')"
    by (auto simp: example_world_def)
  with r vr h show ?thesis by auto
qed

text \<open>
  C6.  The row \<open>r\<close> that \<open>handle_command\<close> appends has \<open>error_message\<close> not null if and
  only if \<open>success r\<close> is false, and has \<open>feedback\<close> not null only if
  \<open>verified_success r\<close> is false.
\<close>

theorem recorded_field_invariants:
  assumes "handle_command a e now w cmd = (res, w')" and "db w' \<noteq> db w"
  shows "\<exists>rows r. solutions (db w) = Some rows \<and> solutions (db w') = Some (rows @ [r])
     \<and> ((error_message r \<noteq> None) = (\<not> success r))
     \<and> (feedback r \<noteq> None \<longrightarrow> verified_success r = Some False)"
proof -
  from handle_command_recorded_row [OF assms] obtain rows r where
    "solutions (db w) = Some rows" "solutions (db w') = Some (rows @ [r])"
    "(error_message r \<noteq> None) = (\<not> success r)"
    and k: "\<not> (success r \<and> enable_verification a) \<and> verified_success r = None \<and> feedback r = None
         \<or> success r \<and> enable_verification a \<and>
           ((\<exists>line answer rest. stdin w = line # answer # rest
                \<and> lower (strip answer) \<in> {''yes'', ''y''}
                \<and> verified_success r = Some True \<and> feedback r = None)
            \<or> (\<exists>line answer f rest. stdin w = line # answer # f # rest
                \<and> lower (strip answer) \<notin> {''yes'', ''y''}
                \<and> verified_success r = Some False \<and> feedback r = Some (strip f)))"
    by blast
  moreover from k have "feedback r \<noteq> None \<longrightarrow> verified_success r = Some False"
    by auto
  ultimately show ?thesis by blast
qed

theorem recorded_field_invariants_witness:
  "db (snd (handle_command (example_agent True)
              (example_env (ApiContent (Some example_script)) (Completed 1 ''syntax error''))
              7 (example_world [''y'']) ''open Safari'')) \<noteq> db (example_world [''y''])
   \<and> (\<exists>rows r. solutions (db (example_world [''y''])) = Some rows
        \<and> solutions (db (snd (handle_command (example_agent True)
              (example_env (ApiContent (Some example_script)) (Completed 1 ''syntax error''))
              7 (example_world [''y'']) ''open Safari''))) = Some (rows @ [r])
        \<and> ((error_message r \<noteq> None) = (\<not> success r))
        \<and> (feedback r \<noteq> None \<longrightarrow> verified_success r = Some False))
   \<and> solutions (db (snd (handle_command (example_agent True)
              (example_env (ApiContent (Some example_script)) (Completed 1 ''syntax error''))
              7 (example_world [''y'']) ''open Safari''))) =
       Some [\<lparr>row_id = 1, command = ''open Safari'', applescript = example_script,
                success = False, verified_success = None, error_message = Some ''syntax error'',
                feedback = None, timestamp = 7\<rparr>]"
proof -
  let ?hc = "handle_command (example_agent True)
              (example_env (ApiContent (Some example_script)) (Completed 1 ''syntax error''))
              7 (example_world [''y'']) ''open Safari''"
  have h: "?hc = (fst ?hc, snd ?hc)" by simp
  have c: "db (snd ?hc) \<noteq> db (example_world [''y''])"
    unfolding example_session_failed by (simp add: example_world_def empty_db_def)
  have s: "solutions (db (snd ?hc)) =
       Some [\<lparr>row_id = 1, command = ''open Safari'', applescript = example_script,
                success = False, verified_success = None, error_message = Some ''syntax error'',
                feedback = None, timestamp = 7\<rparr>]"
    by (simp add: example_session_failed)
  from c recorded_field_invariants [OF h c] s show ?thesis by (intro conjI)
qed

text \<open>
  C9.  Let the script be generated, the approval be given, \<open>osascript\<close> exit with code
  0 and verification be enabled, so that the verification prompt is printed and the
  next line \<open>answer\<close> is read as the reply.  Then no row that the session appends has
  \<open>verified_success\<close> null: it is true exactly if \<open>answer\<close> is \<open>yes\<close> or \<open>y\<close> after \<open>strip\<close>
  and \<open>lower\<close>.  For every other answer, the empty line included, the feedback prompt
  is printed, and when a feedback line \<open>f\<close> is read the appended row has
  \<open>verified_success\<close> false and \<open>feedback\<close> equal to the stripped \<open>f\<close>.
\<close>

theorem verification_answer_decides:
  assumes g: "generate_applescript e w cmd = (Inr (Some script), w1)" and ne: "script \<noteq> []"
    and i: "stdin w = line # answer # rest" and y: "lower (strip line) \<in> {''yes'', ''y''}"
    and x: "subprocess_run e [''osascript'', ''-e'', script] = Completed 0 errtext"
    and v: "enable_verification a"
  shows "''Did this achieve what you wanted? (yes/no): ''
            \<in> set (stdout (snd (handle_command a e now w cmd)))
     \<and> (\<forall>rows r. solutions (db w) = Some rows \<and>
            solutions (db (snd (handle_command a e now w cmd))) = Some (rows @ [r])
          \<longrightarrow> verified_success r = Some (lower (strip answer) \<in> {''yes'', ''y''}))
     \<and> (lower (strip answer) \<notin> {''yes'', ''y''} \<longrightarrow>
          ''What wasn't correct about the result? ''
             \<in> set (stdout (snd (handle_command a e now w cmd)))
          \<and> (\<forall>f rest'. rest = f # rest' \<longrightarrow>
                (\<exists>rows r. solutions (db w) = Some rows \<and>
                   solutions (db (snd (handle_command a e now w cmd))) = Some (rows @ [r]) \<and>
                   verified_success r = Some False \<and> feedback r = Some (strip f))))"
proof -
  from generate_applescript_table [OF g] obtain rows where rows: "solutions (db w) = Some rows"
    by blast
  note run = handle_command_run [OF g ne i y, of a now]
  have ex: "execute_applescript e (after_approval w script (answer # rest)) script =
     ((True, None), (after_approval w script (answer # rest))
        \<lparr>osascript_calls := osascript_calls w @ [script]\<rparr>)"
    by (simp add: execute_applescript_def x Let_def after_approval_def)
  show ?thesis
  proof (cases "lower (strip answer) \<in> {''yes'', ''y''}")
    case True
    with rows v show ?thesis
      unfolding run ex
      by (auto simp: handle_command_verify_def input_def after_approval_def
          save_solution_def Let_def handle_command_report_def)
  next
    case False
    show ?thesis
    proof (cases rest)
      case Nil
      with False rows v show ?thesis
        unfolding run ex
        by (auto simp: handle_command_verify_def input_def after_approval_def
            save_solution_def Let_def handle_command_report_def)
    next
      case (Cons f rest')
      with False rows v show ?thesis
        unfolding run ex
        by (auto simp: handle_command_verify_def input_def after_approval_def
            save_solution_def Let_def handle_command_report_def)
    qed
  qed
qed

theorem verification_answer_decides_witness:
  "generate_applescript (example_env (ApiContent (Some example_script)) (Completed 0 []))
     (example_world [''y'', [], '' wrong window '']) ''open Safari''
     = (Inr (Some example_script), example_world [''y'', [], '' wrong window ''])
   \<and> lower (strip ''y'') = ''y'' \<and> lower (strip []) = []
   \<and> enable_verification (example_agent True)
   \<and> ''What wasn't correct about the result? ''
         \<in> set (stdout (snd (handle_command (example_agent True)
               (example_env (ApiContent (Some example_script)) (Completed 0 []))
               7 (example_world [''y'', [], '' wrong window '']) ''open Safari'')))
   \<and> (\<exists>rows r. solutions (db (example_world [''y'', [], '' wrong window ''])) = Some rows \<and>
          solutions (db (snd (handle_command (example_agent True)
               (example_env (ApiContent (Some example_script)) (Completed 0 []))
               7 (example_world [''y'', [], '' wrong window '']) ''open Safari'')))
            = Some (rows @ [r]) \<and>
          verified_success r = Some False \<and> feedback r = Some (strip '' wrong window ''))"
proof -
  let ?e = "example_env (ApiContent (Some example_script)) (Completed 0 [])"
  let ?w = "example_world [''y'', [], '' wrong window '']"
  have g: "generate_applescript ?e ?w ''open Safari'' = (Inr (Some example_script), ?w)"
    by (rule example_generate_script)
  have i: "stdin ?w = ''y'' # [] # ['' wrong window '']" by (simp add: example_world_def)
  have y: "lower (strip ''y'') \<in> {''yes'', ''y''}" by (simp add: example_answers)
  have x: "subprocess_run ?e [''osascript'', ''-e'', example_script] = Completed 0 []"
    by (simp add: example_env_def)
  have v: "enable_verification (example_agent True)" by (simp add: example_agent_def)
  have n: "lower (strip []) \<notin> {''yes'', ''y''}" by (simp add: example_answers)
  note t = verification_answer_decides [OF g example_script_facts(1) i y x v, of 7]
  from t n have a: "''What wasn't correct about the result? ''
         \<in> set (stdout (snd (handle_command (example_agent True) ?e 7 ?w ''open Safari'')))"
    by blast
  from t n have b: "\<exists>rows r. solutions (db ?w) = Some rows \<and>
          solutions (db (snd (handle_command (example_agent True) ?e 7 ?w ''open Safari'')))
            = Some (rows @ [r]) \<and>
          verified_success r = Some False \<and> feedback r = Some (strip '' wrong window '')"
    by blast
  from g v a b show ?thesis by (simp add: example_answers)
qed

section \<open>The permission failure\<close>

text \<open>
  C7, as amended.  Let the script be generated and approved, and let \<open>osascript\<close> exit
  with a return code other than 0 and a stderr that contains
  \<open>Not authorised to send Apple events\<close>.  Then \<open>handle_command\<close> returns \<open>False\<close>,
  appends a row with \<open>success\<close> false and the stderr as \<open>error_message\<close>, and prints
  the five lines of the permission help followed by the line \<open>Execution failed: ...\<close>.
\<close>

theorem permission_failure_recorded_and_explained:
  assumes g: "generate_applescript e w cmd = (Inr (Some script), w1)" and ne: "script \<noteq> []"
    and i: "stdin w = line # rest" and y: "lower (strip line) \<in> {''yes'', ''y''}"
    and x: "subprocess_run e [''osascript'', ''-e'', script] = Completed returncode error_msg"
    and rc: "returncode \<noteq> 0"
    and na: "contains ''Not authorised to send Apple events'' error_msg"
  shows "\<exists>rows i.
     solutions (db w) = Some rows
     \<and> fst (handle_command a e now w cmd) = Inr False
     \<and> solutions (db (snd (handle_command a e now w cmd))) =
         Some (rows @ [\<lparr>row_id = i, command = cmd, applescript = script, success = False,
                         verified_success = None, error_message = Some error_msg,
                         feedback = None, timestamp = now\<rparr>])
     \<and> stdout (snd (handle_command a e now w cmd)) =
         stdout w @
         [''\<newline>Generated AppleScript:\<newline>\<newline>'', script @ ''\<newline>'',
          ''\<newline>Execute this script? (yes/no): '',
          ''\<newline>Permission required! To allow this script to control applications, please:\<newline>'',
          ''1. Open System Settings\<newline>'',
          ''2. Go to Privacy & Security > Automation\<newline>'',
          ''3. Find Python or Terminal in the list\<newline>'',
          ''4. Enable the checkbox for the application you want to control\<newline>'',
          ''\<newline>Execution failed: '' @ error_msg @ ''\<newline>'']"
proof -
  from generate_applescript_table [OF g] obtain rows where rows: "solutions (db w) = Some rows"
    by blast
  note run = handle_command_run [OF g ne i y, of a now]
  from na have na': "contains NOT_AUTHORISED error_msg" by (simp add: NOT_AUTHORISED_def)
  have ex: "execute_applescript e (after_approval w script rest) script =
     ((False, Some error_msg),
      foldl (\<lambda>w' l. print l w')
        ((after_approval w script rest)\<lparr>osascript_calls := osascript_calls w @ [script]\<rparr>)
        PERMISSION_HELP)"
    using rc na' by (simp add: execute_applescript_def x Let_def after_approval_def)
  from rows show ?thesis
    unfolding run ex
    by (simp add: save_solution_def Let_def handle_command_report_def after_approval_def
        PERMISSION_HELP_def)
qed

theorem permission_failure_recorded_and_explained_witness:
  "generate_applescript (example_env (ApiContent (Some example_script)) (Completed 1 example_stderr))
     (example_world [''y'']) ''open Safari''
     = (Inr (Some example_script), example_world [''y''])
   \<and> lower (strip ''y'') = ''y''
   \<and> contains ''Not authorised to send Apple events'' example_stderr
   \<and> fst (handle_command (example_agent False)
            (example_env (ApiContent (Some example_script)) (Completed 1 example_stderr))
            7 (example_world [''y'']) ''open Safari'') = Inr False
   \<and> stdout (snd (handle_command (example_agent False)
            (example_env (ApiContent (Some example_script)) (Completed 1 example_stderr))
            7 (example_world [''y'']) ''open Safari'')) =
         [''\<newline>Generated AppleScript:\<newline>\<newline>'', example_script @ ''\<newline>'',
          ''\<newline>Execute this script? (yes/no): '',
          ''\<newline>Permission required! To allow this script to control applications, please:\<newline>'',
          ''1. Open System Settings\<newline>'',
          ''2. Go to Privacy & Security > Automation\<newline>'',
          ''3. Find Python or Terminal in the list\<newline>'',
          ''4. Enable the checkbox for the application you want to control\<newline>'',
          ''\<newline>Execution failed: '' @ example_stderr @ ''\<newline>'']
   \<and> (\<exists>i. solutions (db (snd (handle_command (example_agent False)
            (example_env (ApiContent (Some example_script)) (Completed 1 example_stderr))
            7 (example_world [''y'']) ''open Safari''))) =
         Some [\<lparr>row_id = i, command = ''open Safari'', applescript = example_script,
                 success = False, verified_success = None,
                 error_message = Some example_stderr, feedback = None, timestamp = 7\<rparr>])"
proof -
  let ?e = "example_env (ApiContent (Some example_script)) (Completed 1 example_stderr)"
  let ?w = "example_world [''y'']"
  have g: "generate_applescript ?e ?w ''open Safari'' = (Inr (Some example_script), ?w)"
    by (rule example_generate_script)
  have i: "stdin ?w = ''y'' # []" by (simp add: example_world_def)
  have y: "lower (strip ''y'') \<in> {''yes'', ''y''}" by (simp add: example_answers)
  have x: "subprocess_run ?e [''osascript'', ''-e'', example_script] = Completed 1 example_stderr"
    by (simp add: example_env_def)
  have rc: "(1::int) \<noteq> 0" by simp
  note t = permission_failure_recorded_and_explained
    [OF g example_script_facts(1) i y x rc example_stderr_contains, of "example_agent False" 7]
  have w0: "solutions (db ?w) = Some []" "stdout ?w = []"
    by (simp_all add: example_world_def empty_db_def)
  from t g example_stderr_contains show ?thesis
    by (auto simp: w0 example_answers)
qed

text \<open>
  The return code decides, not the text of stderr: with return code 0 the same stderr
  gives a row with \<open>success\<close> true and no \<open>error_message\<close>, and neither the
  permission help nor a failure line is printed.
\<close>

theorem permission_text_with_exit_code_zero_counterexample:
  "contains ''Not authorised to send Apple events'' example_stderr
   \<and> handle_command (example_agent False)
        (example_env (ApiContent (Some example_script)) (Completed 0 example_stderr))
        7 (example_world [''y'']) ''open Safari'' =
      (Inr True,
       \<lparr>db = \<lparr>solutions = Some [\<lparr>row_id = 1, command = ''open Safari'',
                   applescript = example_script, success = True, verified_success = None,
                   error_message = None, feedback = None, timestamp = 7\<rparr>],
               sqlite_sequence = 1\<rparr>,
        stdin = [],
        stdout = [''\<newline>Generated AppleScript:\<newline>\<newline>'', example_script @ ''\<newline>'',
                  ''\<newline>Execute this script? (yes/no): '',
                  ''\<newline>Script executed successfully!\<newline>''],
        osascript_calls = [example_script]\<rparr>)"
proof -
  have "handle_command (example_agent False)
        (example_env (ApiContent (Some example_script)) (Completed 0 example_stderr))
        7 (example_world [''y'']) ''open Safari'' =
      (Inr True,
       \<lparr>db = \<lparr>solutions = Some [\<lparr>row_id = 1, command = ''open Safari'',
                   applescript = example_script, success = True, verified_success = None,
                   error_message = None, feedback = None, timestamp = 7\<rparr>],
               sqlite_sequence = 1\<rparr>,
        stdin = [],
        stdout = [''\<newline>Generated AppleScript:\<newline>\<newline>'', example_script @ ''\<newline>'',
                  ''\<newline>Execute this script? (yes/no): '',
                  ''\<newline>Script executed successfully!\<newline>''],
        osascript_calls = [example_script]\<rparr>)"
    by (simp only: handle_command_def example_generate_script)
       (simp add: example_script_facts example_eval)
  with example_stderr_contains show ?thesis by (intro conjI)
qed

section \<open>Post-processing of the response\<close>

lemma last_dropWhile:
  "dropWhile P xs \<noteq> [] \<Longrightarrow> last (dropWhile P xs) = last xs"
  by (induction xs) (auto split: if_splits)

lemma strip_ends:
  "strip s = [] \<or> (\<not> isspace (hd (strip s)) \<and> \<not> isspace (last (strip s)))"
proof (cases "strip s = []")
  case True
  then show ?thesis by simp
next
  case False
  let ?u = "dropWhile isspace s"
  let ?v = "dropWhile isspace (rev ?u)"
  from False have v: "?v \<noteq> []" by (simp add: strip_def)
  have u: "?u \<noteq> []"
  proof
    assume "?u = []"
    then have "?v = []" by (simp only: rev.simps dropWhile.simps)
    with v show False by (simp only:)
  qed
  from v have "\<not> isspace (hd ?v)" by (rule hd_dropWhile)
  then have l: "\<not> isspace (last (strip s))" by (simp add: strip_def last_rev)
  from v have "last ?v = last (rev ?u)" by (rule last_dropWhile)
  also have "\<dots> = hd ?u" by (simp add: last_rev)
  finally have "hd (strip s) = hd ?u" using v by (simp add: strip_def hd_rev)
  moreover from u have "\<not> isspace (hd ?u)" by (rule hd_dropWhile)
  ultimately show ?thesis using l by simp
qed

lemma strip_fixed:
  assumes "t = [] \<or> (\<not> isspace (hd t) \<and> \<not> isspace (last t))"
  shows "strip t = t"
proof (cases "t = []")
  case True
  then show ?thesis by (simp add: strip_def)
next
  case False
  with assms have h: "\<not> isspace (hd t)" "\<not> isspace (last t)" by auto
  from h(1) have a: "dropWhile isspace t = t" by (simp add: dropWhile_eq_self_iff)
  from h(2) False have "dropWhile isspace (rev t) = rev t"
    by (simp add: dropWhile_eq_self_iff hd_rev)
  with a show ?thesis by (simp add: strip_def)
qed

lemma strip_idem: "strip (strip s) = strip s"
  by (rule strip_fixed) (rule strip_ends)

lemma generate_applescript_only_strips:
  assumes "solutions (db w) = Some rows"
    and "\<And>model messages max_tokens.
           chat_completions_create e model messages max_tokens = ApiContent (Some c)"
  shows "generate_applescript e w cmd = (Inr (Some (strip c)), w)"
  using assms by (simp add: generate_applescript_def find_successful_solution_def Let_def)

lemma example_fenced_strip: "strip example_fenced = example_fenced"
  by (rule strip_fixed)
     (simp add: example_fenced_def FENCE_def isspace_def Let_def)

lemma example_fenced_contains: "contains FENCE example_fenced"
  by (simp add: example_fenced_def FENCE_def)

lemma example_fenced_clean: "clean_response_v1 example_fenced = example_script"
  by code_simp

text \<open>
  C3.  v2's \<open>generate_applescript\<close> returns the content of the response with surrounding
  whitespace stripped and nothing else done to it: a response wrapped in a markdown
  code block comes back with both fence markers in place.  v1's \<open>generate_applescript\<close>
  turns the same response into the bare script.
\<close>

theorem generate_applescript_keeps_fence:
  "generate_applescript (example_env (ApiContent (Some example_fenced)) (Completed 0 []))
     (example_world []) ''open Safari''
     = (Inr (Some example_fenced), example_world [])
   \<and> contains FENCE example_fenced
   \<and> generate_applescript_v1 (example_env (ApiContent (Some example_fenced)) (Completed 0 []))
       (example_world []) ''open Safari''
       = (Some example_script, example_world [])"
proof -
  have v1: "generate_applescript_v1
       (example_env (ApiContent (Some example_fenced)) (Completed 0 []))
       (example_world []) ''open Safari''
       = (Some example_script, example_world [])"
    by (simp add: generate_applescript_v1_def example_env_def example_fenced_clean)
  have "solutions (db (example_world [])) = Some []"
    by (simp add: example_world_def empty_db_def)
  from generate_applescript_only_strips [OF this, of _ example_fenced "''open Safari''"]
  have "generate_applescript (example_env (ApiContent (Some example_fenced)) (Completed 0 []))
     (example_world []) ''open Safari''
     = (Inr (Some example_fenced), example_world [])"
    by (simp add: example_env_def example_fenced_strip)
  with example_fenced_contains v1 show ?thesis by (intro conjI)
qed

text \<open>
  What v1 does holds for every response: after \<open>clean_response_v1\<close> no fence marker is
  left anywhere in the text, and the text has no surrounding whitespace.
\<close>

lemma lead_simps [simp]:
  "lead [] = 0" "lead (c # cs) = (if c = CHR 0x60 then Suc (lead cs) else 0)"
  by (simp_all add: lead_def)

lemma prefix_FENCE: "prefix FENCE s \<longleftrightarrow> 3 \<le> lead s"
proof (cases s)
  case Nil
  then show ?thesis by (simp add: FENCE_def)
next
  case s1: (Cons a s2)
  show ?thesis
  proof (cases s2)
    case Nil
    with s1 show ?thesis by (simp add: FENCE_def)
  next
    case s2: (Cons b s3)
    show ?thesis
    proof (cases s3)
      case Nil
      with s1 s2 show ?thesis by (simp add: FENCE_def)
    next
      case (Cons c s4)
      with s1 s2 show ?thesis by (auto simp: FENCE_def)
    qed
  qed
qed

lemma lead_drop3: "3 \<le> lead s \<Longrightarrow> lead (drop 3 s) = lead s - 3"
proof -
  assume a: "3 \<le> lead s"
  then obtain a1 a2 a3 r where "s = a1 # a2 # a3 # r"
    by (cases s; cases "tl s"; cases "tl (tl s)") (auto split: if_splits)
  with a show ?thesis by (auto split: if_splits)
qed

lemma lead_replace: "lead (replace FENCE [] s) = lead s mod 3"
proof (induction "length s" arbitrary: s rule: less_induct)
  case less
  have ne: "FENCE \<noteq> []" and len: "length FENCE = 3" by (simp_all add: FENCE_def)
  show ?case
  proof (cases "s = []")
    case True
    with ne show ?thesis by (simp add: replace.simps)
  next
    case False
    show ?thesis
    proof (cases "prefix FENCE s")
      case True
      then have l: "3 \<le> lead s" by (simp add: prefix_FENCE)
      from False have "length (drop 3 s) < length s" by simp
      from less [OF this] lead_drop3 [OF l]
      have "lead (replace FENCE [] (drop 3 s)) = (lead s - 3) mod 3" by simp
      also from l have "\<dots> = lead s mod 3" by (simp add: le_mod_geq)
      finally show ?thesis
        using True False ne by (subst replace.simps) (simp add: len)
    next
      case np: False
      then have l: "lead s < 3" by (simp add: prefix_FENCE)
      from False obtain c cs where s: "s = c # cs" by (cases s) auto
      have r: "replace FENCE [] s = c # replace FENCE [] cs"
        using np ne s by (subst replace.simps) simp
      from s have "length cs < length s" by simp
      from less [OF this] have ih: "lead (replace FENCE [] cs) = lead cs mod 3" .
      show ?thesis
      proof (cases "c = CHR 0x60")
        case True
        with l s have "lead cs < 2" by simp
        with ih True s r show ?thesis by simp
      next
        case False
        with s r show ?thesis by simp
      qed
    qed
  qed
qed

lemma replace_FENCE_no_fence: "\<not> contains FENCE (replace FENCE [] s)"
proof (induction "length s" arbitrary: s rule: less_induct)
  case less
  have ne: "FENCE \<noteq> []" and len: "length FENCE = 3" by (simp_all add: FENCE_def)
  show ?case
  proof (cases "s = []")
    case True
    with ne show ?thesis by (simp add: replace.simps)
  next
    case False
    show ?thesis
    proof (cases "prefix FENCE s")
      case True
      from False have "length (drop 3 s) < length s" by simp
      from less [OF this] show ?thesis
        using True False ne by (subst replace.simps) (simp add: len)
    next
      case np: False
      from False obtain c cs where s: "s = c # cs" by (cases s) auto
      have r: "replace FENCE [] s = c # replace FENCE [] cs"
        using np ne s by (subst replace.simps) simp
      from s have "length cs < length s" by simp
      from less [OF this] have ih: "\<not> contains FENCE (replace FENCE [] cs)" .
      have "lead (replace FENCE [] s) < 3" by (simp add: lead_replace)
      then have "\<not> prefix FENCE (c # replace FENCE [] cs)"
        by (simp add: prefix_FENCE r del: lead_simps)
      with ih r show ?thesis by simp
    qed
  qed
qed

lemma contains_sublist: "contains sub s \<longleftrightarrow> sublist sub s"
  by (induction s) (auto simp: sublist_Cons_right)

lemma strip_sublist: "sublist (strip s) s"
proof -
  let ?u = "dropWhile isspace s"
  have e: "takeWhile isspace (rev ?u) @ dropWhile isspace (rev ?u) = rev ?u"
    by (rule takeWhile_dropWhile_id)
  from rev_append [of "takeWhile isspace (rev ?u)" "dropWhile isspace (rev ?u)"]
  have "rev (rev ?u) = rev (dropWhile isspace (rev ?u)) @ rev (takeWhile isspace (rev ?u))"
    unfolding e .
  then have "?u = strip s @ rev (takeWhile isspace (rev ?u))"
    by (simp only: rev_rev_ident strip_def)
  moreover have "s = takeWhile isspace s @ ?u" by simp
  ultimately have "s = takeWhile isspace s @ strip s @ rev (takeWhile isspace (rev ?u))"
    by simp
  then show ?thesis unfolding sublist_def by blast
qed

lemma clean_response_v1_clean:
  "\<not> contains FENCE (clean_response_v1 c) \<and> strip (clean_response_v1 c) = clean_response_v1 c"
proof
  let ?r = "replace FENCE [] (replace (FENCE @ ''applescript'') [] (strip c))"
  show "\<not> contains FENCE (clean_response_v1 c)"
  proof
    assume "contains FENCE (clean_response_v1 c)"
    then have "sublist FENCE (strip ?r)" by (simp add: contains_sublist clean_response_v1_def)
    from this strip_sublist [of ?r] have "sublist FENCE ?r"
      by (rule sublist_order.order_trans)
    then have "contains FENCE ?r" by (simp add: contains_sublist)
    with replace_FENCE_no_fence show False by blast
  qed
  show "strip (clean_response_v1 c) = clean_response_v1 c"
    by (simp add: clean_response_v1_def strip_idem)
qed

end
